theory Spec2Isabelle
  imports Complex_Main
begin

section \<open>Python values\<close>

text \<open>
  A Python \<open>str\<close> is a sequence of Unicode code points; a code point is a natural number.
  \<open>u\<close> turns an ASCII literal into such a string. Python's \<open>int\<close> is \<open>int\<close>; a finite
  \<open>float\<close> is the rational it stands for, a decimal literal the decimal it writes. The
  only arithmetic on floats is a product with a power of two and a \<open>min\<close>, exact on
  them; where the product overflows to plus infinity the \<open>min\<close> is its other argument
  in both readings, and where it overflows to minus infinity the delay is negative in
  both. The conversion of the power to a float is where the product can raise.
\<close>

type_synonym pystr = "nat list"

definition u :: "string \<Rightarrow> pystr" where
  "u s = map of_char s"

datatype py_error = IndexError | ValueError | OverflowError | OSError

text \<open>
  \<open>str.isspace\<close>, which \<open>str.strip()\<close> and the regular expression class \<open>\s\<close> both use
  on \<open>str\<close> patterns.
\<close>

definition is_space :: "nat \<Rightarrow> bool" where
  "is_space c \<longleftrightarrow>
     (9 \<le> c \<and> c \<le> 13) \<or> (28 \<le> c \<and> c \<le> 32) \<or> c = 133 \<or> c = 160 \<or> c = 5760 \<or>
     (8192 \<le> c \<and> c \<le> 8202) \<or> c = 8232 \<or> c = 8233 \<or> c = 8239 \<or> c = 8287 \<or> c = 12288"

definition strip :: "pystr \<Rightarrow> pystr" where
  "strip s = rev (dropWhile is_space (rev (dropWhile is_space s)))"

text \<open>\<open>s.startswith(p)\<close> and \<open>p in s\<close>.\<close>

fun starts_with :: "pystr \<Rightarrow> pystr \<Rightarrow> bool" where
  "starts_with [] s = True"
| "starts_with (p # ps) [] = False"
| "starts_with (p # ps) (c # cs) = (p = c \<and> starts_with ps cs)"

fun contains :: "pystr \<Rightarrow> pystr \<Rightarrow> bool" where
  "contains p [] = (p = [])"
| "contains p (c # cs) = (starts_with p (c # cs) \<or> contains p cs)"

text \<open>
  \<open>s.split(sep)\<close> for a non-empty separator: the pieces between the non-overlapping
  occurrences of \<open>sep\<close>, found from the left. \<open>cur\<close> is the piece being read, reversed.
  (Python raises on an empty separator; every separator of the program is a non-empty
  constant, and the model then returns the string unsplit.)
\<close>

function split_from :: "pystr \<Rightarrow> pystr \<Rightarrow> pystr \<Rightarrow> pystr list" where
  "split_from sep cur [] = [rev cur]"
| "split_from sep cur (c # cs) =
     (if sep \<noteq> [] \<and> starts_with sep (c # cs)
      then rev cur # split_from sep [] (drop (length sep) (c # cs))
      else split_from sep (c # cur) cs)"
  by pat_completeness auto
termination
  by (relation "measure (\<lambda>(sep, cur, s). length s)") auto

definition split :: "pystr \<Rightarrow> pystr \<Rightarrow> pystr list" where
  "split sep s = split_from sep [] s"

text \<open>\<open>sep.join(parts)\<close>.\<close>

fun join :: "pystr \<Rightarrow> pystr list \<Rightarrow> pystr" where
  "join sep [] = []"
| "join sep [p] = p"
| "join sep (p # q # ps) = p @ sep @ join sep (q # ps)"

text \<open>\<open>str(n)\<close> for an \<open>int\<close>, as an f-string renders it.\<close>

fun digits :: "nat \<Rightarrow> pystr" where
  "digits n = (if n < 10 then [48 + n] else digits (n div 10) @ [48 + n mod 10])"

definition str_int :: "int \<Rightarrow> pystr" where
  "str_int n = (if n < 0 then 45 # digits (nat (- n)) else digits (nat n))"

text \<open>
  \<open>xs[:n]\<close>: a negative \<open>n\<close> counts from the end, and the bound is clamped to the list.
\<close>

definition slice_to :: "'a list \<Rightarrow> int \<Rightarrow> 'a list" where
  "slice_to xs n = (if 0 \<le> n then take (nat n) xs else take (nat (int (length xs) + n)) xs)"

text \<open>
  What the interpreter and the platform add to the program is a parameter \<open>T\<close>, and every
  statement below holds for all of them.

  \<open>str.lower\<close> and \<open>str.casefold\<close>: on ASCII text both turn \<open>A\<close>..\<open>Z\<close> into
  \<open>a\<close>..\<open>z\<close> and leave the rest; on other text they follow the Unicode tables of the
  interpreter, the fields \<open>lower\<close> and \<open>casefold\<close>.

  \<open>time.sleep\<close>: \<open>clock T d\<close> is the exception with which the clock of the platform
  refuses the delay \<open>d\<close> (one too long for it), or \<open>None\<close>.

  \<open>ascii_tables\<close> is the instance used to run the definitions: it leaves text that is
  not ASCII as it is, and its clock refuses no delay.
\<close>

record interpreter =
  lower :: "pystr \<Rightarrow> pystr"
  casefold :: "pystr \<Rightarrow> pystr"
  clock :: "rat \<Rightarrow> py_error option"

definition ascii_lower :: "nat \<Rightarrow> nat" where
  "ascii_lower c = (if 65 \<le> c \<and> c \<le> 90 then c + 32 else c)"

definition ascii_tables :: interpreter where
  "ascii_tables =
     \<lparr> lower = map ascii_lower, casefold = map ascii_lower, clock = (\<lambda>d. None) \<rparr>"

definition is_ascii :: "pystr \<Rightarrow> bool" where
  "is_ascii s \<longleftrightarrow> list_all (\<lambda>c. c < 128) s"

definition str_lower :: "interpreter \<Rightarrow> pystr \<Rightarrow> pystr" where
  "str_lower T s = (if is_ascii s then map ascii_lower s else lower T s)"

definition str_casefold :: "interpreter \<Rightarrow> pystr \<Rightarrow> pystr" where
  "str_casefold T s = (if is_ascii s then map ascii_lower s else casefold T s)"


section \<open>face_mood_analyzer.py: the final mood of a capture\<close>

text \<open>
  \<open>collections.Counter\<close> is a dictionary that keeps its keys in insertion order: an
  association list, a new key going to the end.
\<close>

type_synonym counter = "(pystr \<times> nat) list"

fun counter_incr :: "pystr \<Rightarrow> counter \<Rightarrow> counter" where
  "counter_incr x [] = [(x, 1)]"
| "counter_incr x (kv # kvs) =
     (if fst kv = x then (fst kv, Suc (snd kv)) # kvs else kv # counter_incr x kvs)"

definition Counter :: "pystr list \<Rightarrow> counter" where
  "Counter xs = foldl (\<lambda>c x. counter_incr x c) [] xs"

text \<open>
  \<open>most_common(1)\<close> is \<open>max(items, key=count)\<close> when there is an item, and the empty list
  otherwise; \<open>max\<close> keeps the item it holds unless a later one is strictly greater.
\<close>

fun max_by_count :: "pystr \<times> nat \<Rightarrow> counter \<Rightarrow> pystr \<times> nat" where
  "max_by_count best [] = best"
| "max_by_count best (kv # kvs) = max_by_count (if snd best < snd kv then kv else best) kvs"

definition most_common1 :: "counter \<Rightarrow> counter" where
  "most_common1 c = (case c of [] \<Rightarrow> [] | kv # kvs \<Rightarrow> [max_by_count kv kvs])"

text \<open>\<open>r[0][0]\<close>, which raises on an empty \<open>r\<close>.\<close>

definition first_key :: "counter \<Rightarrow> py_error + pystr" where
  "first_key r = (case r of [] \<Rightarrow> Inl IndexError | kv # _ \<Rightarrow> Inr (fst kv))"

definition neutral :: pystr where
  "neutral = u ''neutral''"

text \<open>
  The end of \<open>get_mood_from_webcam\<close>, from \<open>if not last_known_emotions\<close> on: the value it
  returns for the labels the analysis thread has collected.
\<close>

definition final_mood :: "pystr list \<Rightarrow> py_error + pystr" where
  "final_mood last_known_emotions =
     (if last_known_emotions = [] then Inr neutral
      else
        let emotional_moods = filter (\<lambda>mood. mood \<noteq> neutral) last_known_emotions in
        if emotional_moods \<noteq> []
        then first_key (most_common1 (Counter emotional_moods))
        else first_key (most_common1 (Counter last_known_emotions)))"


section \<open>groq_api.py: the artist list of a reply\<close>

record GroqArtistConfig =
  api_key :: pystr
  model :: pystr
  temperature :: rat
  max_tokens :: int
  retries :: int
  backoff_initial :: rat
  backoff_max :: rat
  enforce_count :: int

text \<open>The defaults of the dataclass, for a given key.\<close>

definition default_config :: "pystr \<Rightarrow> GroqArtistConfig" where
  "default_config key =
     \<lparr> api_key = key, model = u ''llama-3.1-8b-instant'', temperature = 1 / 10,
       max_tokens = 256, retries = 3, backoff_initial = 6 / 10, backoff_max = 6,
       enforce_count = 10 \<rparr>"

text \<open>
  \<open>re.sub(r"^```[a-zA-Z0-9]*\s*|\s*```$", "", text, flags=re.MULTILINE)\<close>, as the scan
  from the left that \<open>re.sub\<close> makes. \<open>bol\<close> says that the position is at the beginning
  of a line (the start of the text, or right after a newline), where \<open>^\<close> matches. There
  the first alternative takes a fence, the letters and digits after it and all the
  white space after those. Otherwise the second alternative takes the white space at the
  position and a fence after it that ends its line (\<open>$\<close>: the end of the text or a
  newline next). Where neither matches, the character is kept.
\<close>

definition fence :: pystr where
  "fence = [96, 96, 96]"

definition is_alnum :: "nat \<Rightarrow> bool" where
  "is_alnum c \<longleftrightarrow> (97 \<le> c \<and> c \<le> 122) \<or> (65 \<le> c \<and> c \<le> 90) \<or> (48 \<le> c \<and> c \<le> 57)"

definition at_eol :: "pystr \<Rightarrow> bool" where
  "at_eol s = (case s of [] \<Rightarrow> True | c # _ \<Rightarrow> c = 10)"

definition ends_with_newline :: "pystr \<Rightarrow> bool" where
  "ends_with_newline s = (case rev s of [] \<Rightarrow> False | c # _ \<Rightarrow> c = 10)"

function sub_fences :: "bool \<Rightarrow> pystr \<Rightarrow> pystr" where
  "sub_fences bol [] = []"
| "sub_fences bol (c # cs) =
     (if bol \<and> starts_with fence (c # cs)
      then
        let rest = dropWhile is_space (dropWhile is_alnum (drop 3 (c # cs)));
            matched = take (length (c # cs) - length rest) (c # cs)
        in sub_fences (ends_with_newline matched) rest
      else
        let t = dropWhile is_space (c # cs) in
        if starts_with fence t \<and> at_eol (drop 3 t)
        then sub_fences False (drop 3 t)
        else c # sub_fences (c = 10) cs)"
  by pat_completeness auto
termination
proof (relation "measure (\<lambda>(bol, s). length s)", goal_cases)
  case 1
  show ?case by simp
next
  case (2 bol c cs rest matched)
  have "length (dropWhile is_space (dropWhile is_alnum (drop 2 cs))) \<le> length (drop 2 cs)"
    by (rule order_trans[OF length_dropWhile_le length_dropWhile_le])
  then have "length (dropWhile is_space (dropWhile is_alnum (drop 2 cs))) \<le> length cs"
    by simp
  with 2 show ?case by simp
next
  case (3 bol c cs t)
  have "starts_with fence s \<Longrightarrow> 3 \<le> length s" for s
  proof (cases s)
    case Nil
    then show "starts_with fence s \<Longrightarrow> 3 \<le> length s" by (simp add: fence_def)
  next
    case (Cons a s1)
    then show "starts_with fence s \<Longrightarrow> 3 \<le> length s"
      by (cases s1; cases "tl s1") (simp_all add: fence_def)
  qed
  with 3 have "3 \<le> length t" by blast
  moreover have "length (dropWhile is_space (c # cs)) \<le> length (c # cs)"
    by (rule length_dropWhile_le)
  ultimately show ?case using 3 by simp
next
  case 4
  then show ?case by simp
qed

text \<open>
  \<open>[l for l in text.replace("\r", "").split("\n") if l.strip()]\<close>
\<close>

definition split_lines :: "pystr \<Rightarrow> pystr list" where
  "split_lines text = filter (\<lambda>l. strip l \<noteq> []) (split [10] (filter (\<lambda>c. c \<noteq> 13) text))"

text \<open>
  Lines 92 to 98: a single line that holds a comma, \<open>" \<bullet> "\<close> (U+2022 between spaces) or
  \<open>" | "\<close> is split again. \<open>sep\<close> is assigned up to three times, as in the source.
\<close>

definition comma :: pystr where
  "comma = [44]"

definition bullet_sep :: pystr where
  "bullet_sep = [32, 8226, 32]"

definition pipe_sep :: pystr where
  "pipe_sep = [32, 124, 32]"

definition resplit :: "pystr list \<Rightarrow> pystr list" where
  "resplit lines =
     (if length lines = 1 \<and>
         (contains comma (lines ! 0) \<or> contains bullet_sep (lines ! 0) \<or> contains pipe_sep (lines ! 0))
      then
        let sep = comma;
            sep = (if contains bullet_sep (lines ! 0) then bullet_sep else sep);
            sep = (if contains pipe_sep (lines ! 0) then pipe_sep else sep)
        in filter (\<lambda>p. p \<noteq> []) (map strip (split sep (lines ! 0)))
      else lines)"

text \<open>
  \<open>re.sub(r"^\s*(?:[\-\*\u2022]|[0-9]{1,2}[.)])\s*", "", line)\<close>: without
  \<open>re.MULTILINE\<close> the pattern matches at the start of the line only. After the leading
  white space comes one of \<open>-\<close>, \<open>*\<close>, U+2022, or one or two digits and then \<open>.\<close> or
  \<open>)\<close>; the white space after it goes too. A line without such a marker is unchanged.
\<close>

definition is_bullet :: "nat \<Rightarrow> bool" where
  "is_bullet c \<longleftrightarrow> c = 45 \<or> c = 42 \<or> c = 8226"

definition is_digit :: "nat \<Rightarrow> bool" where
  "is_digit c \<longleftrightarrow> 48 \<le> c \<and> c \<le> 57"

definition is_dot_or_paren :: "nat \<Rightarrow> bool" where
  "is_dot_or_paren c \<longleftrightarrow> c = 46 \<or> c = 41"

fun match_marker :: "pystr \<Rightarrow> pystr option" where
  "match_marker [] = None"
| "match_marker [c] = (if is_bullet c then Some [] else None)"
| "match_marker [c, d] =
     (if is_bullet c then Some [d]
      else if is_digit c \<and> is_dot_or_paren d then Some []
      else None)"
| "match_marker (c # d # e # es) =
     (if is_bullet c then Some (d # e # es)
      else if is_digit c \<and> is_digit d \<and> is_dot_or_paren e then Some es
      else if is_digit c \<and> is_dot_or_paren d then Some (e # es)
      else None)"

definition sub_marker :: "pystr \<Rightarrow> pystr" where
  "sub_marker line =
     (case match_marker (dropWhile is_space line) of
        None \<Rightarrow> line
      | Some rest \<Rightarrow> dropWhile is_space rest)"

text \<open>
  \<open>re.sub(r"^[\"'...]+|[\"'...]+$", "", item)\<close> with the quotes \<open>"\<close>, \<open>'\<close>, U+201C, U+201D,
  U+2018, U+2019: the quotes at the start and the quotes at the end go. (\<open>item\<close> has
  been stripped and holds no newline, so \<open>$\<close> is the end of the string.)
\<close>

definition is_quote :: "nat \<Rightarrow> bool" where
  "is_quote c \<longleftrightarrow> c = 34 \<or> c = 39 \<or> c = 8220 \<or> c = 8221 \<or> c = 8216 \<or> c = 8217"

definition sub_quotes :: "pystr \<Rightarrow> pystr" where
  "sub_quotes item = rev (dropWhile is_quote (rev (dropWhile is_quote item)))"

text \<open>The two tests of the loop: a preamble marker in the lowered item, and a letter in it.\<close>

definition preamble_markers :: "pystr list" where
  "preamble_markers = [u ''artists:'', u ''here are'', u ''list:'', u ''output'', u ''names:'']"

definition has_preamble :: "interpreter \<Rightarrow> pystr \<Rightarrow> bool" where
  "has_preamble T item = list_ex (\<lambda>prefix. contains prefix (str_lower T item)) preamble_markers"

definition is_letter :: "nat \<Rightarrow> bool" where
  "is_letter c \<longleftrightarrow>
     (65 \<le> c \<and> c \<le> 90) \<or> (97 \<le> c \<and> c \<le> 122) \<or> (192 \<le> c \<and> c \<le> 591) \<or>
     (1024 \<le> c \<and> c \<le> 1279) \<or> (12352 \<le> c \<and> c \<le> 12543) \<or>
     (19968 \<le> c \<and> c \<le> 40959) \<or> (44032 \<le> c \<and> c \<le> 55215)"

definition clean_item :: "pystr \<Rightarrow> pystr" where
  "clean_item line = strip (sub_quotes (strip (sub_marker line)))"

text \<open>
  The \<open>for line in lines\<close> loop, with \<open>cleaned\<close> and \<open>seen\<close> as they stand before the
  line: the three \<open>continue\<close>s, the two updates, and the \<open>break\<close> once \<open>cleaned\<close> has
  reached \<open>target_count\<close>.
\<close>

fun clean_lines :: "interpreter \<Rightarrow> int \<Rightarrow> pystr list \<Rightarrow> pystr set \<Rightarrow> pystr list \<Rightarrow> pystr list" where
  "clean_lines T target_count cleaned seen [] = cleaned"
| "clean_lines T target_count cleaned seen (line # lines) =
     (let item = clean_item line in
      if has_preamble T item then clean_lines T target_count cleaned seen lines
      else if \<not> list_ex is_letter item then clean_lines T target_count cleaned seen lines
      else
        let key = str_casefold T item in
        if key \<in> seen then clean_lines T target_count cleaned seen lines
        else
          let seen = insert key seen; cleaned = cleaned @ [item] in
          if target_count \<le> int (length cleaned) then cleaned
          else clean_lines T target_count cleaned seen lines)"

text \<open>
  \<open>_parse_artists\<close>. \<open>raw\<close> is the \<open>content\<close> of the reply, which may be \<open>None\<close>.
\<close>

definition parse_artists :: "interpreter \<Rightarrow> pystr option \<Rightarrow> int \<Rightarrow> pystr list" where
  "parse_artists T raw target_count =
     (case raw of
        None \<Rightarrow> []
      | Some r \<Rightarrow>
          if r = [] then []
          else
            let text = strip r;
                text = sub_fences True text;
                lines = resplit (split_lines text);
                cleaned = clean_lines T target_count [] {} lines
            in if target_count < int (length cleaned) then slice_to cleaned target_count
               else cleaned)"


section \<open>groq_api.py: asking for artists, with retries\<close>

text \<open>
  What \<open>get_artists\<close> does to the world is a request to the generation backend and a
  \<open>time.sleep\<close>; the world is the trace of both, in the order they happen. The backend
  is a collaborator: \<open>backend n req\<close> is its answer to the request \<open>req\<close> when \<open>n\<close>
  requests went before. It raises, or returns a completion with no choice, or one whose
  first choice has the given \<open>content\<close> (\<open>None\<close> or a string). A call of
  \<open>time.sleep\<close> raises when the clock refuses the delay, raises \<open>ValueError\<close> when the
  delay is negative, and is recorded in the trace with its delay otherwise. The log lines
  are left out.
\<close>

record request =
  req_model :: pystr
  req_temperature :: rat
  req_max_tokens :: int
  system_content :: pystr
  user_content :: pystr

datatype completion = Raises | No_choices | Content "pystr option"

type_synonym backend = "nat \<Rightarrow> request \<Rightarrow> completion"

datatype event = Request request | Sleep rat

type_synonym world = "event list"

fun requests_of :: "world \<Rightarrow> request list" where
  "requests_of [] = []"
| "requests_of (Request r # w) = r # requests_of w"
| "requests_of (Sleep d # w) = requests_of w"

fun sleeps_of :: "world \<Rightarrow> rat list" where
  "sleeps_of [] = []"
| "sleeps_of (Request r # w) = sleeps_of w"
| "sleeps_of (Sleep d # w) = d # sleeps_of w"

definition send :: "request \<Rightarrow> world \<Rightarrow> world" where
  "send req w = w @ [Request req]"

definition sleep :: "interpreter \<Rightarrow> rat \<Rightarrow> world \<Rightarrow> py_error + world" where
  "sleep T delay w =
     (case clock T delay of
        Some e \<Rightarrow> Inl e
      | None \<Rightarrow> if delay < 0 then Inl ValueError else Inr (w @ [Sleep delay]))"

definition system_base :: "int \<Rightarrow> pystr" where
  "system_base target_count =
     u ''You are a music expert. Output exactly '' @ str_int target_count @
     u '' distinct, well-known, popular recording artists who match the user's mood and optional language. '' @
     u ''Artists must be primary performers (solo singers, bands, DJs). Use official spellings as on Spotify. '' @
     u ''Output format: one artist name per line, no numbers, no bullets, no punctuation, no explanations, no extra text. '' @
     u ''Exclude actors or non-performing composers. If a language is provided, primarily choose artists who release music in that language.''"

definition system_prompt :: "int \<Rightarrow> int \<Rightarrow> pystr" where
  "system_prompt target_count attempt =
     (let p = system_base target_count;
          p = (if attempt = 2
               then p @ u '' Return ONLY the names. Do not include any headings or counts.''
               else p);
          p = (if 3 \<le> attempt
               then p @ u '' Return EXACTLY '' @ str_int target_count @
                    u '' lines with ONLY the artist name on each line.''
               else p)
      in p)"

definition user_prompt :: "pystr \<Rightarrow> pystr option \<Rightarrow> pystr" where
  "user_prompt mood language =
     (let user_parts = [u ''Mood: '' @ mood];
          user_parts = (case language of
                          None \<Rightarrow> user_parts
                        | Some l \<Rightarrow> if l \<noteq> [] then user_parts @ [u ''Language: '' @ l]
                                    else user_parts)
      in join (u '' | '') user_parts)"

definition make_request :: "GroqArtistConfig \<Rightarrow> pystr \<Rightarrow> pystr option \<Rightarrow> int \<Rightarrow> int \<Rightarrow> request" where
  "make_request cfg mood language target_count attempt =
     \<lparr> req_model = model cfg, req_temperature = temperature cfg,
       req_max_tokens = max_tokens cfg,
       system_content = system_prompt target_count attempt,
       user_content = user_prompt mood language \<rparr>"

text \<open>\<open>max(1, self.config.retries)\<close> and \<open>count or self.config.enforce_count\<close>.\<close>

definition attempts :: "GroqArtistConfig \<Rightarrow> int" where
  "attempts cfg = max 1 (retries cfg)"

definition target_count_of :: "GroqArtistConfig \<Rightarrow> int option \<Rightarrow> int" where
  "target_count_of cfg count =
     (case count of
        None \<Rightarrow> enforce_count cfg
      | Some c \<Rightarrow> if c = 0 then enforce_count cfg else c)"

text \<open>
  \<open>min(backoff_initial * (2 ** (attempt - 1)), backoff_max)\<close>. The power is an \<open>int\<close>,
  and the product turns it into a float first, which raises \<open>OverflowError\<close> from
  \<open>2 ** 1024\<close> on.
\<close>

definition backoff_delay :: "GroqArtistConfig \<Rightarrow> int \<Rightarrow> py_error + rat" where
  "backoff_delay cfg attempt =
     (if 1024 \<le> attempt - 1 then Inl OverflowError
      else Inr (min (backoff_initial cfg * 2 ^ nat (attempt - 1)) (backoff_max cfg)))"

text \<open>The two lines \<open>delay = ...\<close> and \<open>time.sleep(delay)\<close>.\<close>

definition backoff :: "interpreter \<Rightarrow> GroqArtistConfig \<Rightarrow> int \<Rightarrow> world \<Rightarrow> py_error + world" where
  "backoff T cfg attempt w =
     (case backoff_delay cfg attempt of
        Inl e \<Rightarrow> Inl e
      | Inr delay \<Rightarrow> sleep T delay w)"

text \<open>
  \<open>completion.choices[0].message.content if completion and completion.choices else ""\<close>
\<close>

definition raw_of :: "completion \<Rightarrow> pystr option" where
  "raw_of c = (case c of Content raw \<Rightarrow> raw | _ \<Rightarrow> Some [])"

text \<open>
  One turn of the \<open>for attempt in range(1, attempts + 1)\<close> loop ends in one of three
  ways: \<open>get_artists\<close> returns a list, the loop goes on to the next attempt, or an
  exception leaves \<open>get_artists\<close>.
\<close>

datatype flow = Return "pystr list" | Continue | Propagate py_error

text \<open>
  The \<open>except Exception\<close> block (lines 77 to 83): while attempts remain it sleeps, and
  nothing catches what the sleep raises; after the last attempt it returns \<open>[]\<close>.
\<close>

definition except_block :: "interpreter \<Rightarrow> GroqArtistConfig \<Rightarrow> int \<Rightarrow> world \<Rightarrow> flow \<times> world" where
  "except_block T cfg attempt w =
     (if attempt < attempts cfg
      then (case backoff T cfg attempt w of
              Inl e \<Rightarrow> (Propagate e, w)
            | Inr w' \<Rightarrow> (Continue, w'))
      else (Return [], w))"

text \<open>
  The body of the loop (lines 48 to 83). In the \<open>try\<close> block an exact list is returned
  at once; otherwise the block sleeps while attempts remain. What the request or that
  sleep raises is caught by the \<open>except\<close> block.
\<close>

definition attempt_body ::
  "interpreter \<Rightarrow> GroqArtistConfig \<Rightarrow> backend \<Rightarrow> pystr \<Rightarrow> pystr option \<Rightarrow> int \<Rightarrow> int \<Rightarrow> world
     \<Rightarrow> flow \<times> world" where
  "attempt_body T cfg backend mood language target_count attempt w =
     (let req = make_request cfg mood language target_count attempt;
          w1 = send req w
      in case backend (length (requests_of w)) req of
           Raises \<Rightarrow> except_block T cfg attempt w1
         | completion \<Rightarrow>
             let artists = parse_artists T (raw_of completion) target_count in
             if int (length artists) = target_count then (Return artists, w1)
             else if attempt < attempts cfg
             then (case backoff T cfg attempt w1 of
                     Inl e \<Rightarrow> except_block T cfg attempt w1
                   | Inr w2 \<Rightarrow> (Continue, w2))
             else (Continue, w1))"

text \<open>
  The loop from the attempt \<open>attempt\<close> on, and the \<open>return []\<close> after it (line 84). The
  result is what the call returns (\<open>Inr\<close>) or raises (\<open>Inl\<close>), and the world after it.
\<close>

function attempt_loop ::
  "interpreter \<Rightarrow> GroqArtistConfig \<Rightarrow> backend \<Rightarrow> pystr \<Rightarrow> pystr option \<Rightarrow> int \<Rightarrow> int \<Rightarrow> world
     \<Rightarrow> (py_error + pystr list) \<times> world" where
  "attempt_loop T cfg backend mood language target_count attempt w =
     (if attempts cfg < attempt then (Inr [], w)
      else
        case attempt_body T cfg backend mood language target_count attempt w of
          (Return artists, w') \<Rightarrow> (Inr artists, w')
        | (Propagate e, w') \<Rightarrow> (Inl e, w')
        | (Continue, w') \<Rightarrow>
            attempt_loop T cfg backend mood language target_count (attempt + 1) w')"
  by pat_completeness auto
termination
  by (relation "measure (\<lambda>(T, cfg, backend, mood, language, target_count, attempt, w).
         nat (attempts cfg + 1 - attempt))") auto

declare attempt_loop.simps [simp del]

text \<open>
  Lines 36 and 37: a \<open>language\<close> that is blank becomes \<open>None\<close>.
\<close>

definition language_of :: "pystr option \<Rightarrow> pystr option" where
  "language_of language =
     (case language of None \<Rightarrow> None | Some l \<Rightarrow> if strip l = [] then None else Some l)"

text \<open>
  \<open>get_artists\<close>. \<open>mood\<close> is a \<open>str\<close> and \<open>language\<close> a \<open>str\<close> or \<open>None\<close>, as the
  signature says, so the \<open>isinstance\<close> tests hold. The result is the list returned
  (\<open>Inr\<close>) or the exception that leaves the call (\<open>Inl\<close>).
\<close>

definition get_artists ::
  "interpreter \<Rightarrow> GroqArtistConfig \<Rightarrow> backend \<Rightarrow> pystr \<Rightarrow> pystr option \<Rightarrow> int option \<Rightarrow> world
     \<Rightarrow> (py_error + pystr list) \<times> world" where
  "get_artists T cfg backend mood language count w =
     (if strip mood = [] then (Inr [], w)
      else
        let mood = strip mood;
            language = language_of language;
            target_count = target_count_of cfg count
        in attempt_loop T cfg backend mood language target_count 1 w)"

text \<open>
  For the statements: the answer of the backend to the last request of a trace, and
  whether a completion gives a list of exactly \<open>target_count\<close> artists.
\<close>

definition last_reply :: "backend \<Rightarrow> world \<Rightarrow> completion option" where
  "last_reply backend w =
     (case rev (requests_of w) of
        [] \<Rightarrow> None
      | req # _ \<Rightarrow> Some (backend (length (requests_of w) - 1) req))"

definition exact :: "interpreter \<Rightarrow> int \<Rightarrow> completion \<Rightarrow> bool" where
  "exact T target_count c \<longleftrightarrow>
     c \<noteq> Raises \<and> int (length (parse_artists T (raw_of c) target_count)) = target_count"


text \<open>
  For the statements: a delay that \<open>time.sleep\<close> sleeps, and the delay of an attempt
  when the product does not overflow.
\<close>

definition sleepable :: "interpreter \<Rightarrow> rat \<Rightarrow> bool" where
  "sleepable T delay \<longleftrightarrow> clock T delay = None \<and> 0 \<le> delay"

definition delay_of :: "GroqArtistConfig \<Rightarrow> int \<Rightarrow> rat" where
  "delay_of cfg attempt = min (backoff_initial cfg * 2 ^ nat (attempt - 1)) (backoff_max cfg)"

text \<open>
  For the statements: the steps 3 to 7 of the parsing as the specification words them.
  \<open>kept\<close> is the two tests of the steps 4 and 5. \<open>spec_dedup\<close> is the step 6,
  "deduplicate case-insensitively, preserving first-seen order": an item stays, and the
  later items with its case-folded form go. \<open>spec_parse\<close> cleans each candidate line,
  keeps, deduplicates, and then truncates to \<open>target_count\<close>.
\<close>

definition kept :: "interpreter \<Rightarrow> pystr \<Rightarrow> bool" where
  "kept T item \<longleftrightarrow> \<not> has_preamble T item \<and> list_ex is_letter item"

fun spec_dedup :: "interpreter \<Rightarrow> pystr list \<Rightarrow> pystr list" where
  "spec_dedup T [] = []"
| "spec_dedup T (x # xs) =
     x # spec_dedup T (filter (\<lambda>y. str_casefold T y \<noteq> str_casefold T x) xs)"

definition spec_parse :: "interpreter \<Rightarrow> pystr list \<Rightarrow> int \<Rightarrow> pystr list" where
  "spec_parse T lines target_count =
     take (nat target_count) (spec_dedup T (filter (kept T) (map clean_item lines)))"


section \<open>Sample collaborators\<close>

text \<open>
  A key, a backend that raises on every request, and one that always answers with the
  two lines \<open>Adele\<close> and \<open>Drake\<close>: the inputs at which the statements below are run.
\<close>

definition sample_key :: pystr where
  "sample_key = u ''gsk''"

definition failing_backend :: backend where
  "failing_backend n req = Raises"

definition short_backend :: backend where
  "short_backend n req = Content (Some (u ''Adele\<newline>Drake''))"


section \<open>The retry loop, step by step\<close>

lemma requests_of_append: "requests_of (w @ v) = requests_of w @ requests_of v"
  by (induction w rule: requests_of.induct) simp_all

lemma sleeps_of_append: "sleeps_of (w @ v) = sleeps_of w @ sleeps_of v"
  by (induction w rule: sleeps_of.induct) simp_all

lemma requests_of_send: "requests_of (send req w) = requests_of w @ [req]"
  by (simp add: send_def requests_of_append)

lemma last_reply_send: "last_reply backend (send req w) = Some (backend (length (requests_of w)) req)"
  by (simp add: last_reply_def requests_of_send)

lemma requests_of_append_Sleep: "requests_of (w @ [Sleep d]) = requests_of w"
  by (simp add: requests_of_append)

lemma last_reply_append_Sleep: "last_reply backend (w @ [Sleep d]) = last_reply backend w"
  unfolding last_reply_def requests_of_append_Sleep ..

lemma backoff_Inr:
  "backoff T cfg a w = Inr w2 \<longleftrightarrow>
     a - 1 < 1024 \<and> sleepable T (delay_of cfg a) \<and> w2 = w @ [Sleep (delay_of cfg a)]"
  by (auto simp: backoff_def backoff_delay_def sleep_def sleepable_def delay_of_def
      split: option.splits)

lemma backoff_negative: "a - 1 < 1024 \<Longrightarrow> delay_of cfg a < 0 \<Longrightarrow> \<exists>e. backoff T cfg a w = Inl e"
  by (auto simp: backoff_def backoff_delay_def sleep_def delay_of_def split: option.splits)

lemma backoff_overflow: "1024 \<le> a - 1 \<Longrightarrow> backoff T cfg a w = Inl OverflowError"
  by (simp add: backoff_def backoff_delay_def)

lemma attempt_loop_done:
  "attempts cfg < a \<Longrightarrow> attempt_loop T cfg backend mood language tc a w = (Inr [], w)"
  by (subst attempt_loop.simps) simp

lemma attempt_loop_exact:
  assumes "a \<le> attempts cfg"
    and "exact T tc (backend (length (requests_of w)) (make_request cfg mood language tc a))"
  shows "attempt_loop T cfg backend mood language tc a w =
           (Inr (parse_artists T (raw_of (backend (length (requests_of w))
                                      (make_request cfg mood language tc a))) tc),
            send (make_request cfg mood language tc a) w)"
  using assms
  by (cases "backend (length (requests_of w)) (make_request cfg mood language tc a)";
      subst attempt_loop.simps; simp add: exact_def Let_def attempt_body_def)

lemma attempt_loop_final:
  assumes "a = attempts cfg"
    and "\<not> exact T tc (backend (length (requests_of w)) (make_request cfg mood language tc a))"
  shows "attempt_loop T cfg backend mood language tc a w =
           (Inr [], send (make_request cfg mood language tc a) w)"
  using assms
  by (cases "backend (length (requests_of w)) (make_request cfg mood language tc a)";
      subst attempt_loop.simps;
      simp add: exact_def Let_def attempt_body_def except_block_def attempt_loop_done)

lemma attempt_loop_retry:
  assumes "a < attempts cfg"
    and "\<not> exact T tc (backend (length (requests_of w)) (make_request cfg mood language tc a))"
    and "backoff T cfg a (send (make_request cfg mood language tc a) w) = Inr w2"
  shows "attempt_loop T cfg backend mood language tc a w =
           attempt_loop T cfg backend mood language tc (a + 1) w2"
  using assms
  by (cases "backend (length (requests_of w)) (make_request cfg mood language tc a)";
      subst attempt_loop.simps; simp add: exact_def Let_def attempt_body_def except_block_def)

lemma attempt_loop_fail:
  assumes "a < attempts cfg"
    and "\<not> exact T tc (backend (length (requests_of w)) (make_request cfg mood language tc a))"
    and "backoff T cfg a (send (make_request cfg mood language tc a) w) = Inl e"
  shows "attempt_loop T cfg backend mood language tc a w =
           (Inl e, send (make_request cfg mood language tc a) w)"
  using assms
  by (cases "backend (length (requests_of w)) (make_request cfg mood language tc a)";
      subst attempt_loop.simps; simp add: exact_def Let_def attempt_body_def except_block_def)


lemma attempt_loop_run:
  "a \<le> attempts cfg \<Longrightarrow> attempt_loop T cfg backend mood language tc a w = (res, w') \<Longrightarrow>
   \<exists>v k. w' = w @ v \<and> 0 < k \<and> int k \<le> attempts cfg - a + 1 \<and>
     requests_of v = map (make_request cfg mood language tc) [a..a + int k - 1] \<and>
     (\<forall>i. i + 1 < k \<longrightarrow>
        \<not> exact T tc (backend (length (requests_of w) + i) (requests_of v ! i))) \<and>
     (\<exists>c. last_reply backend w' = Some c \<and>
        (exact T tc c \<longrightarrow> res = Inr (parse_artists T (raw_of c) tc)) \<and>
        (\<not> exact T tc c \<longrightarrow>
           (res = Inr [] \<and> int k = attempts cfg - a + 1) \<or>
           ((\<exists>e. res = Inl e) \<and> int k < attempts cfg - a + 1)))"
proof (induction "nat (attempts cfg - a)" arbitrary: a w)
  case 0
  then have a: "a = attempts cfg" by simp
  let ?req = "make_request cfg mood language tc a"
  let ?c = "backend (length (requests_of w)) ?req"
  have r: "res = (if exact T tc ?c then Inr (parse_artists T (raw_of ?c) tc) else Inr [])"
    and w': "w' = w @ [Request ?req]"
    using 0(3) a by (cases "exact T tc ?c"; simp add: attempt_loop_exact attempt_loop_final send_def)+
  show ?case
    by (rule exI[of _ "[Request ?req]"], rule exI[of _ 1])
       (use r w' a in \<open>simp add: last_reply_send[unfolded send_def]\<close>)
next
  case (Suc n)
  then have less: "a < attempts cfg" and n: "n = nat (attempts cfg - (a + 1))" by simp_all
  let ?req = "make_request cfg mood language tc a"
  let ?c = "backend (length (requests_of w)) ?req"
  show ?case
  proof (cases "exact T tc ?c")
    case True
    with Suc.prems have r: "res = Inr (parse_artists T (raw_of ?c) tc)" and w': "w' = w @ [Request ?req]"
      by (simp_all add: attempt_loop_exact send_def)
    show ?thesis
      by (rule exI[of _ "[Request ?req]"], rule exI[of _ 1])
         (use r w' True less in \<open>simp add: last_reply_send[unfolded send_def]\<close>)
  next
    case False
    show ?thesis
    proof (cases "backoff T cfg a (send ?req w)")
      case (Inl e)
      with False less Suc.prems have r: "res = Inl e" and w': "w' = w @ [Request ?req]"
        by (simp_all add: attempt_loop_fail send_def)
      show ?thesis
        by (rule exI[of _ "[Request ?req]"], rule exI[of _ 1])
           (use r w' False less in \<open>simp add: last_reply_send[unfolded send_def]\<close>)
    next
      case (Inr w2)
      then have w2: "w2 = w @ [Request ?req, Sleep (delay_of cfg a)]"
        by (simp add: backoff_Inr send_def)
      from Inr False less Suc.prems
      have run: "attempt_loop T cfg backend mood language tc (a + 1) w2 = (res, w')"
        by (simp add: attempt_loop_retry)
      from less have le: "a + 1 \<le> attempts cfg" by simp
      from Suc.hyps(1)[OF n le run] obtain v k where
        v: "w' = w2 @ v" "0 < k" "int k \<le> attempts cfg - (a + 1) + 1"
           "requests_of v = map (make_request cfg mood language tc) [a + 1..a + 1 + int k - 1]"
           "\<forall>i. i + 1 < k \<longrightarrow>
              \<not> exact T tc (backend (length (requests_of w2) + i) (requests_of v ! i))"
           "\<exists>c. last_reply backend w' = Some c \<and>
              (exact T tc c \<longrightarrow> res = Inr (parse_artists T (raw_of c) tc)) \<and>
              (\<not> exact T tc c \<longrightarrow>
                 (res = Inr [] \<and> int k = attempts cfg - (a + 1) + 1) \<or>
                 ((\<exists>e. res = Inl e) \<and> int k < attempts cfg - (a + 1) + 1))"
        by blast
      let ?v = "Request ?req # Sleep (delay_of cfg a) # v"
      have l2: "length (requests_of w2) = Suc (length (requests_of w))"
        by (simp add: w2 requests_of_append)
      have up: "[a..a + int (Suc k) - 1] = a # [a + 1..a + 1 + int k - 1]"
        using v(2) by (simp add: upto_rec1 add.commute add.left_commute)
      have nonex: "\<not> exact T tc (backend (length (requests_of w) + i) (requests_of ?v ! i))"
        if "i + 1 < Suc k" for i
      proof (cases i)
        case 0
        with False show ?thesis by simp
      next
        case (Suc j)
        with that v(5) l2 show ?thesis by simp
      qed
      show ?thesis
        apply (rule exI[of _ ?v], rule exI[of _ "Suc k"])
        using v(1,3,4,6) less nonex up w2 by (simp del: of_nat_Suc) (auto simp: algebra_simps)
    qed
  qed
qed

lemma attempt_loop_raising:
  assumes "\<forall>n req. backend n req = Raises"
    and "attempts cfg \<le> 1025"
    and "\<forall>k. 1 \<le> k \<and> k < attempts cfg \<longrightarrow> sleepable T (delay_of cfg k)"
  shows "1 \<le> a \<Longrightarrow> a \<le> attempts cfg \<Longrightarrow>
     attempt_loop T cfg backend mood language tc a w =
       (Inr [], w @ concat (map (\<lambda>k. [Request (make_request cfg mood language tc k),
                                    Sleep (delay_of cfg k)]) [a..attempts cfg - 1])
              @ [Request (make_request cfg mood language tc (attempts cfg))])"
proof (induction "nat (attempts cfg - a)" arbitrary: a w)
  case 0
  then have a: "a = attempts cfg" by simp
  with assms(1) show ?case by (simp add: attempt_loop_final exact_def send_def)
next
  case (Suc n)
  then have less: "a < attempts cfg" and n: "n = nat (attempts cfg - (a + 1))" by simp_all
  from less have up: "[a..attempts cfg - 1] = a # [a + 1..attempts cfg - 1]"
    by (simp add: upto_rec1)
  from less Suc.prems assms(2,3)
  have b: "backoff T cfg a (send (make_request cfg mood language tc a) w)
             = Inr (w @ [Request (make_request cfg mood language tc a), Sleep (delay_of cfg a)])"
    by (simp add: backoff_Inr send_def)
  have ne: "\<not> exact T tc (backend (length (requests_of w)) (make_request cfg mood language tc a))"
    using assms(1) by (simp add: exact_def)
  from less Suc.prems have "1 \<le> a + 1" "a + 1 \<le> attempts cfg" by simp_all
  from Suc.hyps(1)[OF n this] show ?case
    using less ne b by (simp add: attempt_loop_retry up)
qed

lemma attempt_loop_raising_overflow:
  assumes "\<forall>n req. backend n req = Raises"
    and "1026 \<le> attempts cfg"
    and "\<forall>k. 1 \<le> k \<and> k < 1025 \<longrightarrow> sleepable T (delay_of cfg k)"
  shows "1 \<le> a \<Longrightarrow> a \<le> 1025 \<Longrightarrow>
     fst (attempt_loop T cfg backend mood language tc a w) = Inl OverflowError"
proof (induction "nat (1025 - a)" arbitrary: a w)
  case 0
  then have a: "a = 1025" by simp
  have ne: "\<not> exact T tc (backend (length (requests_of w)) (make_request cfg mood language tc a))"
    using assms(1) by (simp add: exact_def)
  from a assms(2) have less: "a < attempts cfg" by simp
  from a have "backoff T cfg a (send (make_request cfg mood language tc a) w) = Inl OverflowError"
    by (simp add: backoff_overflow)
  with less ne show ?case by (simp add: attempt_loop_fail)
next
  case (Suc n)
  then have l: "a < 1025" and n: "n = nat (1025 - (a + 1))" by simp_all
  with assms(2) have less: "a < attempts cfg" by simp
  from l Suc.prems assms(3)
  have b: "backoff T cfg a (send (make_request cfg mood language tc a) w)
             = Inr (w @ [Request (make_request cfg mood language tc a), Sleep (delay_of cfg a)])"
    by (simp add: backoff_Inr send_def)
  have ne: "\<not> exact T tc (backend (length (requests_of w)) (make_request cfg mood language tc a))"
    using assms(1) by (simp add: exact_def)
  from l Suc.prems have "1 \<le> a + 1" "a + 1 \<le> 1025" by simp_all
  from Suc.hyps(1)[OF n this] show ?case
    using less ne b by (simp add: attempt_loop_retry)
qed

lemma get_artists_valid:
  "strip mood \<noteq> [] \<Longrightarrow>
   get_artists T cfg backend mood language count w =
     attempt_loop T cfg backend (strip mood) (language_of language) (target_count_of cfg count) 1 w"
  by (simp add: get_artists_def)

lemma attempts_ge_1: "1 \<le> attempts cfg"
  by (simp add: attempts_def)

lemma make_request_retries:
  "make_request (cfg\<lparr>retries := n\<rparr>) mood language tc a = make_request cfg mood language tc a"
  by (simp add: make_request_def)

lemma attempt_loop_single:
  assumes "attempts cfg = 1"
  shows "attempt_loop T cfg backend mood language tc 1 w =
           (Inr (if exact T tc (backend (length (requests_of w)) (make_request cfg mood language tc 1))
                 then parse_artists T (raw_of (backend (length (requests_of w))
                                           (make_request cfg mood language tc 1))) tc
                 else []),
            send (make_request cfg mood language tc 1) w)"
  using assms by (simp add: attempt_loop_exact attempt_loop_final)

lemma requests_of_failed:
  "requests_of (concat (map (\<lambda>k. [Request (f k), Sleep (g k)]) ks)) = map f ks"
  by (induction ks) simp_all

lemma sleeps_of_failed:
  "sleeps_of (concat (map (\<lambda>k. [Request (f k), Sleep (g k)]) ks)) = map g ks"
  by (induction ks) simp_all


section \<open>Counting labels\<close>

lemma keys_counter_incr:
  "map fst (counter_incr x c) = (if x \<in> set (map fst c) then map fst c else map fst c @ [x])"
  by (induction c) auto

lemma map_of_counter_incr:
  "map_of (counter_incr x c) =
     (map_of c)(x \<mapsto> (case map_of c x of None \<Rightarrow> 1 | Some n \<Rightarrow> Suc n))"
  by (induction c) (auto simp: fun_eq_iff)

lemma Counter_snoc: "Counter (xs @ [x]) = counter_incr x (Counter xs)"
  by (simp add: Counter_def)

lemma keys_Counter: "set (map fst (Counter xs)) = set xs \<and> distinct (map fst (Counter xs))"
proof (induction xs rule: rev_induct)
  case Nil
  show ?case by (simp add: Counter_def)
next
  case (snoc x xs)
  then show ?case by (auto simp: Counter_snoc keys_counter_incr)
qed

lemma map_of_Counter:
  "map_of (Counter xs) k = (if k \<in> set xs then Some (count_list xs k) else None)"
proof (induction xs rule: rev_induct)
  case Nil
  show ?case by (simp add: Counter_def)
next
  case (snoc x xs)
  then show ?case by (auto simp: Counter_snoc map_of_counter_incr)
qed

lemma Counter_entry: "(k, n) \<in> set (Counter xs) \<Longrightarrow> k \<in> set xs \<and> n = count_list xs k"
proof -
  assume "(k, n) \<in> set (Counter xs)"
  with keys_Counter[of xs] have "map_of (Counter xs) k = Some n" by simp
  then show ?thesis by (simp add: map_of_Counter split: if_splits)
qed

lemma Counter_order:
  "map fst (Counter xs) = pk @ r # qk \<Longrightarrow> \<exists>p q. xs = p @ r # q \<and> set p \<subseteq> set pk"
proof (induction xs arbitrary: qk rule: rev_induct)
  case Nil
  then show ?case by (simp add: Counter_def)
next
  case (snoc x xs)
  show ?case
  proof (cases "x \<in> set xs")
    case True
    with snoc.prems keys_Counter[of xs] have "map fst (Counter xs) = pk @ r # qk"
      by (simp add: Counter_snoc keys_counter_incr)
    from snoc.IH[OF this] obtain p q where "xs = p @ r # q" "set p \<subseteq> set pk" by blast
    then have "xs @ [x] = p @ r # (q @ [x])" by simp
    with \<open>set p \<subseteq> set pk\<close> show ?thesis by blast
  next
    case False
    with snoc.prems keys_Counter[of xs] have eq: "map fst (Counter xs) @ [x] = pk @ r # qk"
      by (simp add: Counter_snoc keys_counter_incr)
    show ?thesis
    proof (cases qk rule: rev_cases)
      case Nil
      with eq have "map fst (Counter xs) = pk" "x = r" by simp_all
      with keys_Counter[of xs] have "set xs \<subseteq> set pk" by auto
      with \<open>x = r\<close> show ?thesis by blast
    next
      case (snoc qk' y)
      with eq have "map fst (Counter xs) = pk @ r # qk'" by simp
      from snoc.IH[OF this] obtain p q where "xs = p @ r # q" "set p \<subseteq> set pk" by blast
      then have "xs @ [x] = p @ r # (q @ [x])" by simp
      with \<open>set p \<subseteq> set pk\<close> show ?thesis by blast
    qed
  qed
qed

lemma max_by_count_split:
  "\<exists>pre post. best # kvs = pre @ max_by_count best kvs # post \<and>
      (\<forall>kv\<in>set pre. snd kv < snd (max_by_count best kvs)) \<and>
      (\<forall>kv\<in>set post. snd kv \<le> snd (max_by_count best kvs))"
proof (induction kvs arbitrary: best)
  case Nil
  show ?case by (intro exI[of _ "[]"]) simp
next
  case (Cons kv kvs)
  show ?case
  proof (cases "snd best < snd kv")
    case True
    define M where "M = max_by_count kv kvs"
    from True have m: "max_by_count best (kv # kvs) = M" by (simp add: M_def)
    from Cons.IH[of kv] obtain pre post where
      s: "kv # kvs = pre @ M # post" "\<forall>e\<in>set pre. snd e < snd M" "\<forall>e\<in>set post. snd e \<le> snd M"
      unfolding M_def by blast
    have "snd kv \<le> snd M"
      using s by (cases pre) auto
    with True have b: "snd best < snd M" by simp
    show ?thesis unfolding m
      by (rule exI[of _ "best # pre"], rule exI[of _ post]) (use s b in simp)
  next
    case False
    define M where "M = max_by_count best kvs"
    from False have m: "max_by_count best (kv # kvs) = M" by (simp add: M_def)
    from Cons.IH[of best] obtain pre post where
      s: "best # kvs = pre @ M # post" "\<forall>e\<in>set pre. snd e < snd M" "\<forall>e\<in>set post. snd e \<le> snd M"
      unfolding M_def by blast
    show ?thesis
    proof (cases pre)
      case Nil
      with s(1) have e: "M = best" "post = kvs" by simp_all
      show ?thesis unfolding m
        by (rule exI[of _ "[]"], rule exI[of _ "kv # kvs"]) (use s e False in auto)
    next
      case (Cons b pre')
      with s(1) have e: "b = best" "kvs = pre' @ M # post" by simp_all
      from s Cons have "snd best < snd M" by simp
      with False have k: "snd kv < snd M" by simp
      show ?thesis unfolding m
        by (rule exI[of _ "best # kv # pre'"], rule exI[of _ post]) (use s e k Cons in auto)
    qed
  qed
qed


lemma Counter_member: "k \<in> set xs \<Longrightarrow> (k, count_list xs k) \<in> set (Counter xs)"
  by (rule map_of_SomeD) (simp add: map_of_Counter)

lemma most_frequent_first:
  assumes "ys \<noteq> []"
  shows "\<exists>r p q. first_key (most_common1 (Counter ys)) = Inr r \<and> ys = p @ r # q \<and>
           (\<forall>y\<in>set ys. count_list ys y \<le> count_list ys r) \<and>
           (\<forall>y\<in>set p. count_list ys y < count_list ys r)"
proof -
  from assms keys_Counter[of ys] obtain kv kvs where c: "Counter ys = kv # kvs"
    by (cases "Counter ys") auto
  define M where "M = max_by_count kv kvs"
  from max_by_count_split[of kv kvs] obtain pre post where
    s: "kv # kvs = pre @ M # post" "\<forall>e\<in>set pre. snd e < snd M" "\<forall>e\<in>set post. snd e \<le> snd M"
    unfolding M_def by blast
  have res: "first_key (most_common1 (Counter ys)) = Inr (fst M)"
    by (simp add: c most_common1_def first_key_def M_def)
  have C: "Counter ys = pre @ M # post" using c s(1) by simp
  then have "(fst M, snd M) \<in> set (Counter ys)" by simp
  then have M: "fst M \<in> set ys" "snd M = count_list ys (fst M)"
    using Counter_entry by blast+
  have le: "count_list ys y \<le> count_list ys (fst M)" if "y \<in> set ys" for y
  proof -
    from that have "(y, count_list ys y) \<in> set (pre @ M # post)"
      using Counter_member C by metis
    with s(2,3) M(2) show ?thesis by fastforce
  qed
  from C have "map fst (Counter ys) = map fst pre @ fst M # map fst post" by simp
  from Counter_order[OF this] obtain p q where
    pq: "ys = p @ fst M # q" "set p \<subseteq> set (map fst pre)" by blast
  have lt: "count_list ys y < count_list ys (fst M)" if "y \<in> set p" for y
  proof -
    from that pq(2) obtain e where e: "e \<in> set pre" "fst e = y" by auto
    with C have "(y, snd e) \<in> set (Counter ys)" by auto
    then have "snd e = count_list ys y" using Counter_entry by blast
    with e s(2) M(2) show ?thesis by auto
  qed
  show ?thesis
    by (rule exI[of _ "fst M"], rule exI[of _ p], rule exI[of _ q]) (use res pq(1) le lt in simp)
qed

lemma count_list_filter:
  "P y \<Longrightarrow> count_list (filter P xs) y = count_list xs y"
  by (induction xs) auto

lemma filter_eq_append_ConsD:
  "filter P xs = p @ r # q \<Longrightarrow> \<exists>us vs. xs = us @ r # vs \<and> filter P us = p"
proof (induction xs arbitrary: p)
  case Nil
  then show ?case by simp
next
  case (Cons x xs)
  show ?case
  proof (cases "P x")
    case False
    with Cons.prems have "filter P xs = p @ r # q" by simp
    from Cons.IH[OF this] obtain us vs where "xs = us @ r # vs" "filter P us = p" by blast
    with False show ?thesis by (intro exI[of _ "x # us"] exI[of _ vs]) simp
  next
    case True
    show ?thesis
    proof (cases p)
      case Nil
      with True Cons.prems show ?thesis by (intro exI[of _ "[]"] exI[of _ xs]) simp
    next
      case (Cons a p')
      with True Cons.prems have "a = x" "filter P xs = p' @ r # q" by simp_all
      from Cons.IH[OF this(2)] obtain us vs where "xs = us @ r # vs" "filter P us = p'" by blast
      with True Cons \<open>a = x\<close> show ?thesis by (intro exI[of _ "x # us"] exI[of _ vs]) simp
    qed
  qed
qed


section \<open>Cleaning lines\<close>

lemma resplit_single:
  "resplit [l] =
     (if contains pipe_sep l then filter (\<lambda>p. p \<noteq> []) (map strip (split pipe_sep l))
      else if contains bullet_sep l then filter (\<lambda>p. p \<noteq> []) (map strip (split bullet_sep l))
      else if contains comma l then filter (\<lambda>p. p \<noteq> []) (map strip (split comma l))
      else [l])"
  by (simp add: resplit_def)

lemma resplit_many: "length lines \<noteq> 1 \<Longrightarrow> resplit lines = lines"
  by (simp add: resplit_def)

lemmas parse_eval =
  parse_artists_def split_lines_def split_def resplit_single resplit_many comma_def bullet_sep_def
  pipe_sep_def
  clean_item_def u_def strip_def sub_marker_def sub_quotes_def is_space_def is_bullet_def
  is_digit_def is_dot_or_paren_def is_quote_def fence_def at_eol_def ends_with_newline_def
  is_alnum_def has_preamble_def preamble_markers_def str_lower_def str_casefold_def is_ascii_def
  ascii_lower_def is_letter_def slice_to_def raw_of_def

lemma clean_lines_distinct:
  "distinct (map (str_casefold T) cleaned) \<Longrightarrow> seen = set (map (str_casefold T) cleaned) \<Longrightarrow>
   distinct (map (str_casefold T) (clean_lines T tc cleaned seen lines))"
proof (induction lines arbitrary: cleaned seen)
  case Nil
  then show ?case by simp
next
  case (Cons line lines)
  show ?case
  proof (cases "has_preamble T (clean_item line) \<or> \<not> list_ex is_letter (clean_item line) \<or>
                str_casefold T (clean_item line) \<in> seen")
    case True
    then have "clean_lines T tc cleaned seen (line # lines) = clean_lines T tc cleaned seen lines"
      by (auto simp: Let_def)
    with Cons show ?thesis by simp
  next
    case False
    let ?c = "cleaned @ [clean_item line]"
    have d: "distinct (map (str_casefold T) ?c)"
      and s: "insert (str_casefold T (clean_item line)) seen = set (map (str_casefold T) ?c)"
      using False Cons.prems by auto
    from False have "clean_lines T tc cleaned seen (line # lines) =
        (if tc \<le> int (length ?c) then ?c
         else clean_lines T tc ?c (insert (str_casefold T (clean_item line)) seen) lines)"
      by (simp add: Let_def)
    with d Cons.IH[OF d s] show ?thesis by simp
  qed
qed

lemma clean_lines_no_preamble:
  "set (clean_lines T tc cleaned seen lines) \<subseteq> set cleaned \<union> {item. \<not> has_preamble T item}"
proof (induction lines arbitrary: cleaned seen)
  case Nil
  show ?case by simp
next
  case (Cons line lines)
  show ?case
    using Cons.IH[of cleaned seen]
      Cons.IH[of "cleaned @ [clean_item line]" "insert (str_casefold T (clean_item line)) seen"]
    by (auto simp: Let_def)
qed

lemma parse_artists_subset:
  "set (parse_artists T raw tc) \<subseteq>
     set (clean_lines T tc [] {} (resplit (split_lines (sub_fences True (strip (the raw))))))"
  by (auto simp: parse_artists_def slice_to_def Let_def split: option.splits dest: in_set_takeD)


text \<open>The loop of \<open>_parse_artists\<close> and its cut, against \<open>spec_parse\<close>.\<close>

lemma clean_lines_skip:
  "\<not> kept T (clean_item line) \<or> str_casefold T (clean_item line) \<in> seen \<Longrightarrow>
   clean_lines T tc cleaned seen (line # lines) = clean_lines T tc cleaned seen lines"
  by (auto simp: kept_def Let_def)

lemma clean_lines_add:
  "kept T (clean_item line) \<Longrightarrow> str_casefold T (clean_item line) \<notin> seen \<Longrightarrow>
   clean_lines T tc cleaned seen (line # lines) =
     (if tc \<le> int (length cleaned) + 1 then cleaned @ [clean_item line]
      else clean_lines T tc (cleaned @ [clean_item line])
             (insert (str_casefold T (clean_item line)) seen) lines)"
  by (simp add: kept_def Let_def)

lemma filter_not_seen_insert:
  "filter (\<lambda>y. f y \<noteq> k) (filter (\<lambda>y. f y \<notin> seen) zs) = filter (\<lambda>y. f y \<notin> insert k seen) zs"
  by (induction zs) auto

lemma clean_lines_closed:
  "int (length cleaned) < tc \<Longrightarrow>
   clean_lines T tc cleaned seen lines =
     cleaned @ take (nat tc - length cleaned)
       (spec_dedup T (filter (\<lambda>y. str_casefold T y \<notin> seen)
                        (filter (kept T) (map clean_item lines))))"
proof (induction lines arbitrary: cleaned seen)
  case Nil
  show ?case by simp
next
  case (Cons line lines)
  let ?item = "clean_item line"
  let ?key = "str_casefold T ?item"
  let ?zs = "filter (kept T) (map clean_item lines)"
  show ?case
  proof (cases "kept T ?item \<and> ?key \<notin> seen")
    case False
    then have "clean_lines T tc cleaned seen (line # lines) = clean_lines T tc cleaned seen lines"
      by (intro clean_lines_skip) blast
    with False Cons.IH[OF Cons.prems] show ?thesis by auto
  next
    case True
    define D where "D = spec_dedup T (filter (\<lambda>y. str_casefold T y \<notin> insert ?key seen) ?zs)"
    have d: "spec_dedup T (filter (\<lambda>y. str_casefold T y \<notin> seen)
                            (filter (kept T) (map clean_item (line # lines))))
             = ?item # D"
    proof -
      have "filter (\<lambda>y. str_casefold T y \<notin> seen) (filter (kept T) (map clean_item (line # lines)))
              = ?item # filter (\<lambda>y. str_casefold T y \<notin> seen) ?zs"
        using True by (simp del: filter_filter)
      then show ?thesis
        unfolding D_def by (simp only: spec_dedup.simps filter_not_seen_insert)
    qed
    show ?thesis
    proof (cases "tc \<le> int (length cleaned) + 1")
      case last: True
      with Cons.prems have n: "nat tc - length cleaned = Suc 0" by linarith
      from True last have "clean_lines T tc cleaned seen (line # lines) = cleaned @ [?item]"
        by (simp add: clean_lines_add del: clean_lines.simps)
      then show ?thesis unfolding d n by simp
    next
      case more: False
      then have lt: "int (length (cleaned @ [?item])) < tc" by simp
      from more Cons.prems have n: "nat tc - length cleaned = Suc (nat tc - length (cleaned @ [?item]))"
        by simp
      from True more
      have "clean_lines T tc cleaned seen (line # lines)
              = clean_lines T tc (cleaned @ [?item]) (insert ?key seen) lines"
        by (simp add: clean_lines_add del: clean_lines.simps)
      also have "\<dots> = (cleaned @ [?item]) @ take (nat tc - length (cleaned @ [?item])) D"
        unfolding D_def by (rule Cons.IH[OF lt])
      finally show ?thesis unfolding d n by simp
    qed
  qed
qed

lemma clean_lines_nonpos:
  "tc \<le> 0 \<Longrightarrow> length (clean_lines T tc [] seen lines) \<le> 1"
proof (induction lines arbitrary: seen)
  case Nil
  show ?case by simp
next
  case (Cons line lines)
  show ?case
  proof (cases "kept T (clean_item line) \<and> str_casefold T (clean_item line) \<notin> seen")
    case False
    then have "clean_lines T tc [] seen (line # lines) = clean_lines T tc [] seen lines"
      by (intro clean_lines_skip) blast
    with Cons show ?thesis by simp
  next
    case True
    with Cons.prems show ?thesis by (simp add: clean_lines_add del: clean_lines.simps)
  qed
qed

lemma split_lines_Nil: "split_lines [] = []"
  by (simp add: split_lines_def split_def strip_def)

lemma resplit_Nil: "resplit [] = []"
  by (simp add: resplit_def)

lemma length_spec_dedup_le: "length (spec_dedup T xs) \<le> length xs"
  by (induction T xs rule: spec_dedup.induct) (auto intro: le_trans[OF _ length_filter_le] simp: le_SucI)

lemma parse_artists_spec:
  "parse_artists T (Some r) tc = spec_parse T (resplit (split_lines (sub_fences True (strip r)))) tc"
proof (cases "r = []")
  case True
  then show ?thesis
    by (simp add: parse_artists_def spec_parse_def strip_def split_lines_Nil resplit_Nil)
next
  case False
  let ?lines = "resplit (split_lines (sub_fences True (strip r)))"
  let ?c = "clean_lines T tc [] {} ?lines"
  have p: "parse_artists T (Some r) tc = (if tc < int (length ?c) then slice_to ?c tc else ?c)"
    using False by (simp add: parse_artists_def Let_def)
  show ?thesis
  proof (cases "0 < tc")
    case True
    then have c: "?c = take (nat tc) (spec_dedup T (filter (kept T) (map clean_item ?lines)))"
      using clean_lines_closed[of "[]" tc T "{}" ?lines] by simp
    then have "int (length ?c) \<le> tc" using True by simp
    with p c show ?thesis by (simp add: spec_parse_def)
  next
    case False
    then have l: "length ?c \<le> 1" by (intro clean_lines_nonpos) simp
    then have "?c = [] \<or> (\<exists>x. ?c = [x])" by (cases ?c) auto
    with p False show ?thesis by (auto simp: spec_parse_def slice_to_def)
  qed
qed


section \<open>Running the definitions\<close>

lemma strip_happy: "strip (u ''happy'') = u ''happy''"
  by (simp add: strip_def u_def is_space_def)

lemma happy_valid: "strip (u ''happy'') \<noteq> []"
  by (simp add: strip_def u_def is_space_def)

lemma strip_empty: "strip [] = []" "strip (u '' '') = []"
  by (simp_all add: strip_def u_def is_space_def)

lemma blank_run:
  "strip mood = [] \<Longrightarrow> get_artists T cfg backend mood language count [] = (Inr [], [])"
  by (simp add: get_artists_def)

lemma language_of_None: "language_of None = None"
  by (simp add: language_of_def)

lemma attempts_default: "attempts (default_config key) = 3"
  by (simp add: attempts_def default_config_def)

lemma sleepable_default: "sleepable ascii_tables (delay_of (default_config key) a)"
  by (simp add: sleepable_def ascii_tables_def delay_of_def default_config_def)

lemma backoff_default:
  "a - 1 < 1024 \<Longrightarrow>
   backoff ascii_tables (default_config key) a w = Inr (w @ [Sleep (delay_of (default_config key) a)])"
  by (simp add: backoff_Inr sleepable_default)

lemma short_parse:
  "parse_artists T (Some (u ''Adele\<newline>Drake'')) 2 = [u ''Adele'', u ''Drake'']"
  "parse_artists T (Some (u ''Adele\<newline>Drake'')) 3 = [u ''Adele'', u ''Drake'']"
  by (simp_all add: parse_eval)

lemma short_exact:
  "exact T 2 (short_backend n req)" "\<not> exact T 3 (short_backend n req)"
  by (simp_all add: exact_def short_backend_def raw_of_def short_parse)

lemma short_run_2:
  "get_artists T (default_config sample_key) short_backend (u ''happy'') None (Some 2) [] =
     (Inr [u ''Adele'', u ''Drake''],
      [Request (make_request (default_config sample_key) (u ''happy'') None 2 1)])"
proof -
  have tc: "target_count_of (default_config sample_key) (Some 2) = 2"
    by (simp add: target_count_of_def)
  show ?thesis
    by (simp add: get_artists_valid[OF happy_valid] strip_happy tc language_of_None
          attempt_loop_exact[OF attempts_ge_1 short_exact(1)] short_backend_def raw_of_def
          short_parse send_def)
qed

lemma short_run_3:
  "get_artists ascii_tables (default_config sample_key) short_backend (u ''happy'') None (Some 3) [] =
     (Inr [],
      [Request (make_request (default_config sample_key) (u ''happy'') None 3 1),
       Sleep (delay_of (default_config sample_key) 1),
       Request (make_request (default_config sample_key) (u ''happy'') None 3 2),
       Sleep (delay_of (default_config sample_key) 2),
       Request (make_request (default_config sample_key) (u ''happy'') None 3 3)])"
proof -
  let ?cfg = "default_config sample_key"
  let ?loop = "attempt_loop ascii_tables ?cfg short_backend (u ''happy'') None 3"
  have tc: "target_count_of ?cfg (Some 3) = 3"
    by (simp add: target_count_of_def)
  have G: "get_artists ascii_tables ?cfg short_backend (u ''happy'') None (Some 3) [] = ?loop 1 []"
    by (simp add: get_artists_valid[OF happy_valid] strip_happy tc language_of_None)
  have step: "a < 3 \<Longrightarrow> ?loop a w = ?loop (a + 1)
       (send (make_request ?cfg (u ''happy'') None 3 a) w @ [Sleep (delay_of ?cfg a)])" for a w
    by (rule attempt_loop_retry) (simp_all add: attempts_default short_exact backoff_default)
  have final: "?loop 3 w = (Inr [], send (make_request ?cfg (u ''happy'') None 3 3) w)" for w
    by (rule attempt_loop_final) (simp_all add: attempts_default short_exact)
  show ?thesis
    by (simp add: G step[of 1, simplified] step[of 2, simplified] final send_def)
qed

lemma last_reply_short_3:
  "last_reply short_backend (snd (get_artists ascii_tables (default_config sample_key) short_backend
      (u ''happy'') None (Some 3) [])) = Some (Content (Some (u ''Adele\<newline>Drake'')))"
  by (simp add: short_run_3 last_reply_def short_backend_def)

lemma negative_delay_run:
  "get_artists ascii_tables ((default_config sample_key)\<lparr>backoff_initial := - 1\<rparr>) failing_backend
      (u ''happy'') None None [] =
     (Inl ValueError,
      [Request (make_request ((default_config sample_key)\<lparr>backoff_initial := - 1\<rparr>)
                  (u ''happy'') None 10 1)])"
proof -
  let ?cfg = "(default_config sample_key)\<lparr>backoff_initial := - 1\<rparr>"
  have tc: "target_count_of ?cfg None = 10"
    by (simp add: target_count_of_def default_config_def)
  have a: "1 < attempts ?cfg" by (simp add: attempts_def default_config_def)
  have ne: "\<not> exact ascii_tables 10 (failing_backend (length (requests_of []))
              (make_request ?cfg (u ''happy'') None 10 1))"
    by (simp add: exact_def failing_backend_def)
  have b: "backoff ascii_tables ?cfg 1 (send (make_request ?cfg (u ''happy'') None 10 1) [])
             = Inl ValueError"
    by (simp add: backoff_def backoff_delay_def sleep_def ascii_tables_def default_config_def)
  show ?thesis
    using a ne b
    by (simp add: get_artists_valid[OF happy_valid] strip_happy tc language_of_None
          attempt_loop_fail send_def)
qed

lemma overflow_run:
  "fst (get_artists ascii_tables ((default_config sample_key)\<lparr>retries := 1026\<rparr>) failing_backend
      (u ''happy'') None None []) = Inl OverflowError"
proof -
  let ?cfg = "(default_config sample_key)\<lparr>retries := 1026\<rparr>"
  have f: "\<forall>n req. failing_backend n req = Raises" by (simp add: failing_backend_def)
  have a: "1026 \<le> attempts ?cfg" by (simp add: attempts_def)
  have s: "\<forall>k. 1 \<le> k \<and> k < 1025 \<longrightarrow> sleepable ascii_tables (delay_of ?cfg k)"
    by (simp add: sleepable_def ascii_tables_def delay_of_def default_config_def)
  show ?thesis
    by (simp add: get_artists_valid[OF happy_valid] attempt_loop_raising_overflow[OF f a s])
qed


section \<open>The claims\<close>

text \<open>
  C1, as amended. The requests of a call are those of the attempts 1, 2, ... in turn, and
  the answer to each request but the last does not give a list of exactly
  \<open>target_count\<close> artists: a reply that does ends the retries. If the answer to the last
  request gives an exact list, that list is returned. If the last request is the final
  attempt and the answer to it does not give an exact list (a list of another length,
  or an exception), the call returns the empty list: not the partial list, and not an
  error. If the call ends after a request that is not the final attempt, either the
  answer to that request gave an exact list, which is returned, or it did not and an
  exception of the backoff sleep leaves the call: nothing else ends the retries early.
  A mood that is not blank makes at least one request.
\<close>

theorem final_attempt_result:
  assumes "get_artists T cfg backend mood language count w = (res, w')"
  shows "(last_reply backend w' = Some c \<and>
          int (length (requests_of w')) = int (length (requests_of w)) + attempts cfg \<and>
          \<not> exact T (target_count_of cfg count) c \<longrightarrow> res = Inr []) \<and>
         (last_reply backend w' = Some c \<and> length (requests_of w) < length (requests_of w') \<and>
          exact T (target_count_of cfg count) c \<longrightarrow>
            res = Inr (parse_artists T (raw_of c) (target_count_of cfg count))) \<and>
         (\<forall>i. length (requests_of w) \<le> i \<and> i + 1 < length (requests_of w') \<longrightarrow>
            \<not> exact T (target_count_of cfg count) (backend i (requests_of w' ! i))) \<and>
         (length (requests_of w) < length (requests_of w') \<and>
          int (length (requests_of w')) < int (length (requests_of w)) + attempts cfg \<longrightarrow>
            (\<exists>c. last_reply backend w' = Some c \<and>
               (exact T (target_count_of cfg count) c \<and>
                  res = Inr (parse_artists T (raw_of c) (target_count_of cfg count)) \<or>
                \<not> exact T (target_count_of cfg count) c \<and> (\<exists>e. res = Inl e)))) \<and>
         (strip mood \<noteq> [] \<longrightarrow> length (requests_of w) < length (requests_of w')) \<and>
         int (length (requests_of w')) \<le> int (length (requests_of w)) + attempts cfg \<and>
         requests_of w' = requests_of w @
           map (make_request cfg (strip mood) (language_of language) (target_count_of cfg count))
             [1..int (length (requests_of w')) - int (length (requests_of w))]"
proof (cases "strip mood = []")
  case True
  with assms have "res = Inr []" "w' = w" by (simp_all add: get_artists_def)
  then show ?thesis using True attempts_ge_1[of cfg] by auto
next
  case False
  let ?tc = "target_count_of cfg count"
  let ?mk = "make_request cfg (strip mood) (language_of language) ?tc"
  from False assms have "attempt_loop T cfg backend (strip mood) (language_of language) ?tc 1 w
                          = (res, w')"
    by (simp add: get_artists_valid)
  from attempt_loop_run[OF attempts_ge_1 this] obtain v k where
    v0: "w' = w @ v" "0 < k" "int k \<le> attempts cfg - 1 + 1"
       "requests_of v = map ?mk [1..1 + int k - 1]"
       "\<forall>i. i + 1 < k \<longrightarrow> \<not> exact T ?tc (backend (length (requests_of w) + i) (requests_of v ! i))"
       "\<exists>c. last_reply backend w' = Some c \<and>
          (exact T ?tc c \<longrightarrow> res = Inr (parse_artists T (raw_of c) ?tc)) \<and>
          (\<not> exact T ?tc c \<longrightarrow>
             (res = Inr [] \<and> int k = attempts cfg - 1 + 1) \<or>
             ((\<exists>e. res = Inl e) \<and> int k < attempts cfg - 1 + 1))"
    by blast
  from v0(1-5) have
    v: "w' = w @ v" "0 < k" "int k \<le> attempts cfg"
       "requests_of v = map ?mk [1..int k]"
       "\<forall>i. i + 1 < k \<longrightarrow> \<not> exact T ?tc (backend (length (requests_of w) + i) (requests_of v ! i))"
    by simp_all
  from v0(6) obtain c0 where
    c0: "last_reply backend w' = Some c0"
       "exact T ?tc c0 \<longrightarrow> res = Inr (parse_artists T (raw_of c0) ?tc)"
       "\<not> exact T ?tc c0 \<longrightarrow>
          (res = Inr [] \<and> int k = attempts cfg) \<or> ((\<exists>e. res = Inl e) \<and> int k < attempts cfg)"
    by auto
  have len: "length (requests_of w') = length (requests_of w) + k"
    using v(1,4) by (simp add: requests_of_append)
  have all: "\<not> exact T ?tc (backend i (requests_of w' ! i))"
    if "length (requests_of w) \<le> i \<and> i + 1 < length (requests_of w')" for i
  proof -
    from that len have j: "i - length (requests_of w) + 1 < k" by arith
    from that have "requests_of w' ! i = requests_of v ! (i - length (requests_of w))"
      by (simp add: v(1) requests_of_append nth_append)
    with v(5)[rule_format, OF j] that show ?thesis by simp
  qed
  show ?thesis
  proof (intro conjI impI allI)
    assume "last_reply backend w' = Some c \<and>
          int (length (requests_of w')) = int (length (requests_of w)) + attempts cfg \<and>
          \<not> exact T ?tc c"
    with c0 len show "res = Inr []" by auto
  next
    assume "last_reply backend w' = Some c \<and> length (requests_of w) < length (requests_of w') \<and>
          exact T ?tc c"
    with c0 show "res = Inr (parse_artists T (raw_of c) ?tc)" by simp
  next
    fix i assume "length (requests_of w) \<le> i \<and> i + 1 < length (requests_of w')"
    then show "\<not> exact T ?tc (backend i (requests_of w' ! i))" by (rule all)
  next
    assume "length (requests_of w) < length (requests_of w') \<and>
          int (length (requests_of w')) < int (length (requests_of w)) + attempts cfg"
    with c0(3) len have "exact T ?tc c0 \<or> (\<exists>e. res = Inl e)" by auto
    with c0(1,2) show "\<exists>c. last_reply backend w' = Some c \<and>
               (exact T ?tc c \<and> res = Inr (parse_artists T (raw_of c) ?tc) \<or>
                \<not> exact T ?tc c \<and> (\<exists>e. res = Inl e))" by blast
  next
    from len v(2) show "length (requests_of w) < length (requests_of w')" by simp
  next
    from len v(3) show "int (length (requests_of w')) \<le> int (length (requests_of w)) + attempts cfg"
      by simp
  next
    from len v(1,4) show "requests_of w' = requests_of w @
           map ?mk [1..int (length (requests_of w')) - int (length (requests_of w))]"
      by (simp add: requests_of_append)
  qed
qed

theorem final_attempt_result_witness:
  "last_reply short_backend (snd (get_artists ascii_tables (default_config sample_key)
      short_backend (u ''happy'') None (Some 3) [])) = Some (Content (Some (u ''Adele\<newline>Drake''))) \<and>
   int (length (requests_of (snd (get_artists ascii_tables (default_config sample_key)
      short_backend (u ''happy'') None (Some 3) [])))) = int (length (requests_of [])) + 3 \<and>
   \<not> exact ascii_tables 3 (Content (Some (u ''Adele\<newline>Drake''))) \<and>
   fst (get_artists ascii_tables (default_config sample_key) short_backend (u ''happy'') None
          (Some 3) []) = Inr [] \<and>
   length (requests_of []) \<le> 1 \<and>
   1 + 1 < length (requests_of (snd (get_artists ascii_tables (default_config sample_key)
      short_backend (u ''happy'') None (Some 3) []))) \<and>
   \<not> exact ascii_tables 3 (short_backend 1 (requests_of (snd (get_artists ascii_tables
      (default_config sample_key) short_backend (u ''happy'') None (Some 3) [])) ! 1))"
proof -
  let ?G = "get_artists ascii_tables (default_config sample_key) short_backend (u ''happy'') None
          (Some 3) []"
  let ?c = "Content (Some (u ''Adele\<newline>Drake''))"
  have p: "?G = (fst ?G, snd ?G)" by simp
  have tc: "target_count_of (default_config sample_key) (Some 3) = 3"
    by (simp add: target_count_of_def)
  have a: "last_reply short_backend (snd ?G) = Some ?c" by (rule last_reply_short_3)
  have b: "int (length (requests_of (snd ?G))) = int (length (requests_of [])) + 3"
    by (simp add: short_run_3)
  have c: "\<not> exact ascii_tables 3 ?c"
    using short_exact(2)[of ascii_tables 0 undefined] by (simp add: short_backend_def)
  have d: "length (requests_of []) \<le> 1 \<and> 1 + 1 < length (requests_of (snd ?G))"
    by (simp add: short_run_3)
  note t = final_attempt_result[OF p, where c = ?c]
  from t[THEN conjunct1] a b c
  have e: "fst ?G = Inr []" by (simp add: tc attempts_default)
  from t[THEN conjunct2, THEN conjunct2, THEN conjunct1, rule_format, OF d]
  have f: "\<not> exact ascii_tables 3 (short_backend 1 (requests_of (snd ?G) ! 1))"
    by (simp add: tc)
  from a b c d e f show ?thesis by blast
qed

text \<open>
  C1 as stated fails: with the default configuration and a backend whose every answer
  has two artists where three are asked for, the cleaned list of the third and last
  attempt is \<open>[Adele, Drake]\<close>, and the call returns \<open>[]\<close> after its three requests.
\<close>

theorem partial_list_counterexample:
  "parse_artists ascii_tables (Some (u ''Adele\<newline>Drake'')) 3 = [u ''Adele'', u ''Drake''] \<and>
   short_backend 2 (make_request (default_config sample_key) (u ''happy'') None 3 3)
     = Content (Some (u ''Adele\<newline>Drake'')) \<and>
   length (requests_of (snd (get_artists ascii_tables (default_config sample_key) short_backend
          (u ''happy'') None (Some 3) []))) = 3 \<and>
   fst (get_artists ascii_tables (default_config sample_key) short_backend (u ''happy'') None
          (Some 3) []) = Inr [] \<and>
   fst (get_artists ascii_tables (default_config sample_key) short_backend (u ''happy'') None
          (Some 3) []) \<noteq> Inr [u ''Adele'', u ''Drake'']"
  by (simp add: short_run_3 short_parse short_backend_def)

text \<open>
  C2. Whatever the mood, the language and the count, a list returned by \<open>get_artists\<close>
  that is not empty has exactly \<open>target_count\<close> elements.
\<close>

theorem returned_list_length:
  assumes "get_artists T cfg backend mood language count w = (Inr r, w')" and "r \<noteq> []"
  shows "int (length r) = target_count_of cfg count"
proof (cases "strip mood = []")
  case True
  with assms show ?thesis by (simp add: get_artists_def)
next
  case False
  with assms(1) have "attempt_loop T cfg backend (strip mood) (language_of language)
                       (target_count_of cfg count) 1 w = (Inr r, w')"
    by (simp add: get_artists_valid)
  from attempt_loop_run[OF attempts_ge_1 this] assms(2) show ?thesis
    by (auto simp: exact_def)
qed

theorem returned_list_length_witness:
  "get_artists ascii_tables (default_config sample_key) short_backend (u ''happy'') None (Some 2) []
     = (Inr [u ''Adele'', u ''Drake''],
        [Request (make_request (default_config sample_key) (u ''happy'') None 2 1)]) \<and>
   [u ''Adele'', u ''Drake''] \<noteq> [] \<and>
   int (length [u ''Adele'', u ''Drake'']) = target_count_of (default_config sample_key) (Some 2)"
proof -
  have ne: "[u ''Adele'', u ''Drake''] \<noteq> []" by simp
  from short_run_2[of ascii_tables] ne returned_list_length[OF short_run_2[of ascii_tables] ne]
  show ?thesis by (intro conjI)
qed

text \<open>
  C3. The final mood of a capture is \<open>neutral\<close> for an empty series. If the series has
  a label other than \<open>neutral\<close>, the result \<open>r\<close> is such a label, none of the other
  labels that are not \<open>neutral\<close> occurs more often, and each of them that occurs before
  the first \<open>r\<close> occurs less often (of the most frequent labels, the first met wins).
  If the series is not empty and all \<open>neutral\<close>, the result is the most frequent label
  of the whole series, which is \<open>neutral\<close>. No case raises.
\<close>

theorem final_mood_most_frequent:
  "final_mood [] = Inr neutral \<and>
   ((\<exists>x\<in>set xs. x \<noteq> neutral) \<longrightarrow>
      (\<exists>r pre post. final_mood xs = Inr r \<and> r \<noteq> neutral \<and> xs = pre @ r # post \<and>
         (\<forall>y\<in>set xs. y \<noteq> neutral \<longrightarrow> count_list xs y \<le> count_list xs r) \<and>
         (\<forall>y\<in>set pre. y \<noteq> neutral \<longrightarrow> count_list xs y < count_list xs r))) \<and>
   (xs \<noteq> [] \<and> (\<forall>x\<in>set xs. x = neutral) \<longrightarrow>
      final_mood xs = Inr neutral \<and>
      final_mood xs = first_key (most_common1 (Counter xs)))"
proof (intro conjI impI)
  show "final_mood [] = Inr neutral" by (simp add: final_mood_def)
next
  assume ex: "\<exists>x\<in>set xs. x \<noteq> neutral"
  define ys where "ys = filter (\<lambda>mood. mood \<noteq> neutral) xs"
  from ex have ne: "ys \<noteq> []" "xs \<noteq> []" by (auto simp: ys_def filter_empty_conv)
  then have fm: "final_mood xs = first_key (most_common1 (Counter ys))"
    by (simp add: final_mood_def ys_def)
  from most_frequent_first[OF ne(1)] obtain r p q where
    r: "first_key (most_common1 (Counter ys)) = Inr r" "ys = p @ r # q"
       "\<forall>y\<in>set ys. count_list ys y \<le> count_list ys r"
       "\<forall>y\<in>set p. count_list ys y < count_list ys r" by blast
  from r(2) have "r \<in> set ys" by simp
  then have rn: "r \<noteq> neutral" by (simp add: ys_def)
  have cnt: "count_list ys y = count_list xs y" if "y \<noteq> neutral" for y
    using that unfolding ys_def by (rule count_list_filter)
  from filter_eq_append_ConsD[OF r(2)[unfolded ys_def]] obtain us vs where
    dec: "xs = us @ r # vs" and us: "filter (\<lambda>mood. mood \<noteq> neutral) us = p"
    by blast
  have before: "count_list xs y < count_list xs r" if "y \<in> set us" "y \<noteq> neutral" for y
  proof -
    from that us have "y \<in> set p" by auto
    with r(4) cnt[OF that(2)] cnt[OF rn] show ?thesis by metis
  qed
  have all: "count_list xs y \<le> count_list xs r" if "y \<in> set xs" "y \<noteq> neutral" for y
  proof -
    from that have "y \<in> set ys" by (simp add: ys_def)
    with r(3) cnt[OF that(2)] cnt[OF rn] show ?thesis by metis
  qed
  from fm r(1) rn dec before all
  show "\<exists>r pre post. final_mood xs = Inr r \<and> r \<noteq> neutral \<and> xs = pre @ r # post \<and>
         (\<forall>y\<in>set xs. y \<noteq> neutral \<longrightarrow> count_list xs y \<le> count_list xs r) \<and>
         (\<forall>y\<in>set pre. y \<noteq> neutral \<longrightarrow> count_list xs y < count_list xs r)"
    by (intro exI[of _ r] exI[of _ us] exI[of _ vs]) simp
next
  assume a: "xs \<noteq> [] \<and> (\<forall>x\<in>set xs. x = neutral)"
  then have f: "filter (\<lambda>mood. mood \<noteq> neutral) xs = []" by (simp add: filter_empty_conv)
  with a have fm: "final_mood xs = first_key (most_common1 (Counter xs))"
    by (simp add: final_mood_def)
  from a most_frequent_first[of xs] obtain r p q where
    "first_key (most_common1 (Counter xs)) = Inr r" "xs = p @ r # q" by blast
  with a fm show "final_mood xs = Inr neutral" by auto
  from fm show "final_mood xs = first_key (most_common1 (Counter xs))" .
qed

theorem final_mood_most_frequent_witness:
  "(\<exists>x\<in>set [u ''sad'', neutral, u ''happy'', u ''happy'', u ''sad'']. x \<noteq> neutral) \<and>
   final_mood [u ''sad'', neutral, u ''happy'', u ''happy'', u ''sad''] = Inr (u ''sad'') \<and>
   (\<exists>r pre post. final_mood [u ''happy'', neutral, u ''happy'', u ''sad''] = Inr r \<and>
      r \<noteq> neutral \<and> [u ''happy'', neutral, u ''happy'', u ''sad''] = pre @ r # post) \<and>
   final_mood [neutral, neutral] = Inr neutral"
proof -
  have e: "\<exists>x\<in>set [u ''happy'', neutral, u ''happy'', u ''sad'']. x \<noteq> neutral"
    by (simp add: neutral_def u_def)
  have n: "[neutral, neutral] \<noteq> [] \<and> (\<forall>x\<in>set [neutral, neutral]. x = neutral)" by simp
  have v: "final_mood [u ''sad'', neutral, u ''happy'', u ''happy'', u ''sad''] = Inr (u ''sad'')"
    by (simp add: final_mood_def Counter_def most_common1_def first_key_def neutral_def u_def)
  from final_mood_most_frequent[of "[u ''happy'', neutral, u ''happy'', u ''sad'']"] e
  have "\<exists>r pre post. final_mood [u ''happy'', neutral, u ''happy'', u ''sad''] = Inr r \<and>
      r \<noteq> neutral \<and> [u ''happy'', neutral, u ''happy'', u ''sad''] = pre @ r # post"
    by blast
  moreover from final_mood_most_frequent[of "[neutral, neutral]"] n
  have "final_mood [neutral, neutral] = Inr neutral" by blast
  moreover have "\<exists>x\<in>set [u ''sad'', neutral, u ''happy'', u ''happy'', u ''sad'']. x \<noteq> neutral"
    by (simp add: neutral_def u_def)
  ultimately show ?thesis using v by blast
qed

text \<open>
  C4. A single line is split again on \<open>" | "\<close> if it holds one, else on the bullet
  separator if it holds one, else on the comma if it holds one (the pieces are stripped
  and the empty ones dropped), and is left alone if it holds none of them. Any other
  number of lines is left as it is.
\<close>

theorem resplit_precedence:
  "resplit [l] =
     (if contains pipe_sep l then filter (\<lambda>p. p \<noteq> []) (map strip (split pipe_sep l))
      else if contains bullet_sep l then filter (\<lambda>p. p \<noteq> []) (map strip (split bullet_sep l))
      else if contains comma l then filter (\<lambda>p. p \<noteq> []) (map strip (split comma l))
      else [l]) \<and>
   (length lines \<noteq> 1 \<longrightarrow> resplit lines = lines)"
  by (simp add: resplit_def)

theorem resplit_precedence_witness:
  "resplit [u ''Adele, Drake | ABBA | Queen, x''] = [u ''Adele, Drake'', u ''ABBA'', u ''Queen, x''] \<and>
   length [u ''Adele, Drake'', u ''ABBA | Queen''] \<noteq> 1 \<and>
   resplit [u ''Adele, Drake'', u ''ABBA | Queen''] = [u ''Adele, Drake'', u ''ABBA | Queen''] \<and>
   parse_artists ascii_tables (Some (u ''Adele, Drake | ABBA | Queen, x'')) 10
     = [u ''Adele, Drake'', u ''ABBA'', u ''Queen, x''] \<and>
   parse_artists ascii_tables (Some (u ''Adele, Drake\<newline>ABBA | Queen'')) 10
     = [u ''Adele, Drake'', u ''ABBA | Queen'']"
proof -
  let ?l = "u ''Adele, Drake | ABBA | Queen, x''"
  let ?lines = "[u ''Adele, Drake'', u ''ABBA | Queen'']"
  note t = resplit_precedence[of ?l ?lines]
  have c: "contains pipe_sep ?l"
    by (simp add: u_def pipe_sep_def)
  have s: "filter (\<lambda>p. p \<noteq> []) (map strip (split pipe_sep ?l))
             = [u ''Adele, Drake'', u ''ABBA'', u ''Queen, x'']"
    by (simp add: u_def pipe_sep_def split_def strip_def is_space_def)
  have one: "resplit [?l] = [u ''Adele, Drake'', u ''ABBA'', u ''Queen, x'']"
    using t[THEN conjunct1] by (simp only: c s if_True)
  have n: "length ?lines \<noteq> 1" by simp
  have two: "resplit ?lines = ?lines"
    using t[THEN conjunct2] n by (rule mp)
  have p1: "parse_artists ascii_tables (Some (u ''Adele, Drake | ABBA | Queen, x'')) 10
     = [u ''Adele, Drake'', u ''ABBA'', u ''Queen, x'']"
    by (simp add: parse_eval)
  have p2: "parse_artists ascii_tables (Some (u ''Adele, Drake\<newline>ABBA | Queen'')) 10
     = [u ''Adele, Drake'', u ''ABBA | Queen'']"
    by (simp add: parse_eval)
  from one n two p1 p2 show ?thesis by (intro conjI)
qed

text \<open>
  C5, as amended. Take a mood that is not blank, \<open>retries\<close> from 1 to 1025, and a
  configuration whose delay \<open>min (backoff_initial * 2 ^ (attempt - 1)) backoff_max\<close> is,
  for each attempt from 1 to \<open>retries - 1\<close>, one that \<open>time.sleep\<close> sleeps (not negative,
  and not refused by the clock). Then a backend that raises on every request makes
  \<open>get_artists\<close> return \<open>[]\<close> with this trace: for each attempt from 1 to \<open>retries - 1\<close>
  the request and then a sleep of that delay, and last the request of the attempt
  \<open>retries\<close> with no sleep after it. So there are exactly \<open>retries\<close> requests, and the
  delays slept are those of the attempts 1 to \<open>retries - 1\<close>.
\<close>

theorem always_raising_backend:
  assumes "1 \<le> retries cfg" and "retries cfg \<le> 1025" and "strip mood \<noteq> []"
    and "\<forall>n req. backend n req = Raises"
    and "\<forall>attempt. 1 \<le> attempt \<and> attempt < retries cfg \<longrightarrow>
           sleepable T (min (backoff_initial cfg * 2 ^ nat (attempt - 1)) (backoff_max cfg))"
  shows "get_artists T cfg backend mood language count w =
           (Inr [], w @ concat (map (\<lambda>attempt.
                      [Request (make_request cfg (strip mood) (language_of language)
                                  (target_count_of cfg count) attempt),
                       Sleep (min (backoff_initial cfg * 2 ^ nat (attempt - 1)) (backoff_max cfg))])
                    [1..retries cfg - 1])
                @ [Request (make_request cfg (strip mood) (language_of language)
                              (target_count_of cfg count) (retries cfg))]) \<and>
         length (requests_of (snd (get_artists T cfg backend mood language count w))) =
           length (requests_of w) + nat (retries cfg) \<and>
         sleeps_of (snd (get_artists T cfg backend mood language count w)) =
           sleeps_of w @ map (\<lambda>attempt. min (backoff_initial cfg * 2 ^ nat (attempt - 1)) (backoff_max cfg))
                           [1..retries cfg - 1]"
proof -
  from assms(1) have a: "attempts cfg = retries cfg" by (simp add: attempts_def)
  from assms(2) a have le: "attempts cfg \<le> 1025" by simp
  from assms(5) a have s: "\<forall>k. 1 \<le> k \<and> k < attempts cfg \<longrightarrow> sleepable T (delay_of cfg k)"
    by (simp add: delay_of_def)
  have one: "(1::int) \<le> 1" by simp
  have "get_artists T cfg backend mood language count w =
           (Inr [], w @ concat (map (\<lambda>attempt.
                      [Request (make_request cfg (strip mood) (language_of language)
                                  (target_count_of cfg count) attempt),
                       Sleep (delay_of cfg attempt)])
                    [1..retries cfg - 1])
                @ [Request (make_request cfg (strip mood) (language_of language)
                              (target_count_of cfg count) (retries cfg))])"
    using attempt_loop_raising[OF assms(4) le s one attempts_ge_1] assms(3) a
    by (simp add: get_artists_valid)
  then show ?thesis using assms(1)
    by (simp add: requests_of_append sleeps_of_append requests_of_failed sleeps_of_failed
          delay_of_def)
qed

theorem always_raising_backend_witness:
  "1 \<le> retries (default_config sample_key) \<and> retries (default_config sample_key) \<le> 1025 \<and>
   strip (u ''happy'') \<noteq> [] \<and>
   (\<forall>n req. failing_backend n req = Raises) \<and>
   (\<forall>attempt. sleepable ascii_tables
      (min (backoff_initial (default_config sample_key) * 2 ^ nat (attempt - 1))
           (backoff_max (default_config sample_key)))) \<and>
   fst (get_artists ascii_tables (default_config sample_key) failing_backend (u ''happy'') None
          None []) = Inr [] \<and>
   length (requests_of (snd (get_artists ascii_tables (default_config sample_key) failing_backend
          (u ''happy'') None None []))) = 3 \<and>
   sleeps_of (snd (get_artists ascii_tables (default_config sample_key) failing_backend
          (u ''happy'') None None [])) = [6 / 10, 12 / 10]"
proof -
  have r: "retries (default_config sample_key) = 3" by (simp add: default_config_def)
  then have h1: "1 \<le> retries (default_config sample_key)"
    and h2: "retries (default_config sample_key) \<le> 1025" by simp_all
  have h3: "\<forall>n req. failing_backend n req = Raises" by (simp add: failing_backend_def)
  have s: "\<forall>attempt. sleepable ascii_tables
      (min (backoff_initial (default_config sample_key) * 2 ^ nat (attempt - 1))
           (backoff_max (default_config sample_key)))"
    using sleepable_default[of sample_key] by (simp add: delay_of_def)
  then have h5: "\<forall>attempt. 1 \<le> attempt \<and> attempt < retries (default_config sample_key) \<longrightarrow>
      sleepable ascii_tables
      (min (backoff_initial (default_config sample_key) * 2 ^ nat (attempt - 1))
           (backoff_max (default_config sample_key)))" by simp
  have up: "[1..2::int] = [1, 2]" by (simp add: upto.simps)
  note t = always_raising_backend[OF h1 h2 happy_valid h3 h5, of None None "[]"]
  from t[THEN conjunct1] have a: "fst (get_artists ascii_tables (default_config sample_key)
      failing_backend (u ''happy'') None None []) = Inr []" by simp
  from t[THEN conjunct2, THEN conjunct1] have b: "length (requests_of (snd (get_artists
      ascii_tables (default_config sample_key) failing_backend (u ''happy'') None None []))) = 3"
    by (simp add: r)
  have "sleeps_of (snd (get_artists ascii_tables (default_config sample_key) failing_backend
      (u ''happy'') None None [])) =
      map (\<lambda>attempt. min (backoff_initial (default_config sample_key) * 2 ^ nat (attempt - 1))
                        (backoff_max (default_config sample_key))) [1, 2]"
    using t[THEN conjunct2, THEN conjunct2] by (simp add: r up)
  then have c: "sleeps_of (snd (get_artists ascii_tables (default_config sample_key)
      failing_backend (u ''happy'') None None [])) = [6 / 10, 12 / 10]"
    by (simp add: default_config_def)
  from h1 h2 happy_valid h3 s a b c show ?thesis by blast
qed

text \<open>
  C5 as stated fails in three ways, each with a backend that raises on every request.
  For a blank mood the guard of line 33 returns \<open>[]\<close> before the loop, so with the
  default 3 retries the call makes no request at all, not 3. With \<open>backoff_initial = -1\<close>
  the delay after the first attempt is negative: \<open>time.sleep\<close> raises \<open>ValueError\<close> inside
  the \<open>except\<close> block, and it leaves \<open>get_artists\<close> after one request. With
  \<open>retries = 1026\<close> the power \<open>2 ** 1024\<close> of the attempt 1025 does not fit a float: the
  product raises \<open>OverflowError\<close> inside the \<open>except\<close> block, and it leaves \<open>get_artists\<close>.
\<close>

theorem raising_backend_counterexample:
  "retries (default_config sample_key) = 3 \<and>
   failing_backend 0 (make_request (default_config sample_key) [] None 10 1) = Raises \<and>
   get_artists ascii_tables (default_config sample_key) failing_backend [] None None []
     = (Inr [], []) \<and>
   length (requests_of (snd (get_artists ascii_tables (default_config sample_key)
     failing_backend [] None None []))) = 0 \<and>
   retries ((default_config sample_key)\<lparr>backoff_initial := - 1\<rparr>) = 3 \<and>
   strip (u ''happy'') \<noteq> [] \<and>
   fst (get_artists ascii_tables ((default_config sample_key)\<lparr>backoff_initial := - 1\<rparr>)
     failing_backend (u ''happy'') None None []) = Inl ValueError \<and>
   length (requests_of (snd (get_artists ascii_tables
     ((default_config sample_key)\<lparr>backoff_initial := - 1\<rparr>)
     failing_backend (u ''happy'') None None []))) = 1 \<and>
   retries ((default_config sample_key)\<lparr>retries := 1026\<rparr>) = 1026 \<and>
   fst (get_artists ascii_tables ((default_config sample_key)\<lparr>retries := 1026\<rparr>)
     failing_backend (u ''happy'') None None []) = Inl OverflowError"
proof -
  have "retries (default_config sample_key) = 3" by (simp add: default_config_def)
  moreover have "failing_backend 0 (make_request (default_config sample_key) [] None 10 1) = Raises"
    by (simp add: failing_backend_def)
  moreover have "get_artists ascii_tables (default_config sample_key) failing_backend [] None None []
     = (Inr [], [])" by (simp add: blank_run strip_empty)
  moreover have "retries ((default_config sample_key)\<lparr>backoff_initial := - 1\<rparr>) = 3"
    by (simp add: default_config_def)
  ultimately show ?thesis
    by (simp add: negative_delay_run overflow_run happy_valid)
qed

text \<open>
  C6. A mood that is empty after stripping makes \<open>get_artists\<close> return \<open>[]\<close> and leave
  the world as it was: no request to the backend, and no sleep.
\<close>

theorem blank_mood_no_request:
  "strip mood = [] \<Longrightarrow> get_artists T cfg backend mood language count w = (Inr [], w)"
  by (simp add: get_artists_def)

theorem blank_mood_no_request_witness:
  "strip (u '' '') = [] \<and>
   get_artists ascii_tables (default_config sample_key) short_backend (u '' '') None (Some 2) []
     = (Inr [], [])"
proof -
  have h: "strip (u '' '') = []" by (simp add: strip_def u_def is_space_def)
  from h blank_mood_no_request[OF h] show ?thesis by simp
qed

text \<open>
  C7. The three lines \<open>1. Adele\<close>, \<open>2. Drake\<close>, \<open>3. Adele\<close> give \<open>[Adele, Drake]\<close> for
  a target of 3: the numbering goes, and the repeated name is dropped before the count
  is looked at. The same holds under other markers and letter cases, the first spelling
  being the one kept; and the case-folded names of any result are distinct. In general
  the result for a text is \<open>spec_parse\<close> of its candidate lines: each line cleaned, the
  preamble lines and the lines without a letter dropped, the later repeats of a
  case-folded name dropped, and only then the list cut to \<open>target_count\<close>. So a repeat
  does not end the list (\<open>Adele\<close>, \<open>adele\<close>, \<open>Drake\<close> give \<open>[Adele, Drake]\<close> for a target
  of 2), a repeat does not count towards the target (a fourth line \<open>4. ABBA\<close> is taken
  for a target of 3), and the names past the target are cut.
\<close>

theorem parse_dedup_before_count:
  "parse_artists T (Some (u ''1. Adele\<newline>2. Drake\<newline>3. Adele'')) 3 = [u ''Adele'', u ''Drake''] \<and>
   parse_artists T (Some (u ''1) Adele\<newline>12. DRAKE\<newline>- adele\<newline>* drake'')) 3 = [u ''Adele'', u ''DRAKE''] \<and>
   distinct (map (str_casefold T) (parse_artists T raw tc)) \<and>
   parse_artists T (Some r) tc =
     spec_parse T (resplit (split_lines (sub_fences True (strip r)))) tc \<and>
   parse_artists T None tc = [] \<and>
   parse_artists T (Some (u ''Adele\<newline>adele\<newline>Drake'')) 2 = [u ''Adele'', u ''Drake''] \<and>
   parse_artists T (Some (u ''1. Adele\<newline>2. Drake\<newline>3. Adele\<newline>4. ABBA'')) 3
     = [u ''Adele'', u ''Drake'', u ''ABBA''] \<and>
   parse_artists T (Some (u ''Adele\<newline>Drake\<newline>ABBA'')) 2 = [u ''Adele'', u ''Drake'']"
proof (intro conjI)
  show "parse_artists T (Some (u ''1. Adele\<newline>2. Drake\<newline>3. Adele'')) 3 = [u ''Adele'', u ''Drake'']"
    by (simp add: parse_eval)
  show "parse_artists T (Some (u ''1) Adele\<newline>12. DRAKE\<newline>- adele\<newline>* drake'')) 3 = [u ''Adele'', u ''DRAKE'']"
    by (simp add: parse_eval)
  have "distinct (map (str_casefold T) (clean_lines T tc [] {} lines))" for lines
    by (rule clean_lines_distinct) simp_all
  then show "distinct (map (str_casefold T) (parse_artists T raw tc))"
    by (simp add: parse_artists_def slice_to_def Let_def take_map[symmetric] distinct_take
          split: option.splits)
  show "parse_artists T (Some r) tc =
     spec_parse T (resplit (split_lines (sub_fences True (strip r)))) tc"
    by (rule parse_artists_spec)
  show "parse_artists T None tc = []"
    by (simp add: parse_artists_def)
  show "parse_artists T (Some (u ''Adele\<newline>adele\<newline>Drake'')) 2 = [u ''Adele'', u ''Drake'']"
    by (simp add: parse_eval)
  show "parse_artists T (Some (u ''1. Adele\<newline>2. Drake\<newline>3. Adele\<newline>4. ABBA'')) 3
     = [u ''Adele'', u ''Drake'', u ''ABBA'']"
    by (simp add: parse_eval)
  show "parse_artists T (Some (u ''Adele\<newline>Drake\<newline>ABBA'')) 2 = [u ''Adele'', u ''Drake'']"
    by (simp add: parse_eval)
qed

theorem parse_dedup_before_count_witness:
  "parse_artists ascii_tables (Some (u ''1. Adele\<newline>2. Drake\<newline>3. Adele'')) 3
     = [u ''Adele'', u ''Drake''] \<and>
   resplit (split_lines (sub_fences True (strip (u ''Adele\<newline>adele\<newline>Drake''))))
     = [u ''Adele'', u ''adele'', u ''Drake''] \<and>
   spec_parse ascii_tables [u ''Adele'', u ''adele'', u ''Drake''] 2 = [u ''Adele'', u ''Drake''] \<and>
   parse_artists ascii_tables (Some (u ''Adele\<newline>adele\<newline>Drake'')) 2
     = spec_parse ascii_tables [u ''Adele'', u ''adele'', u ''Drake''] 2 \<and>
   distinct (map (str_casefold ascii_tables)
     (parse_artists ascii_tables (Some (u ''Adele\<newline>Drake'')) 2))"
proof -
  have l: "resplit (split_lines (sub_fences True (strip (u ''Adele\<newline>adele\<newline>Drake''))))
     = [u ''Adele'', u ''adele'', u ''Drake'']"
    by (simp add: parse_eval)
  note t = parse_dedup_before_count[of ascii_tables "Some (u ''Adele\<newline>Drake'')" 2
             "u ''Adele\<newline>adele\<newline>Drake''"]
  from t have s: "parse_artists ascii_tables (Some (u ''Adele\<newline>adele\<newline>Drake'')) 2
     = spec_parse ascii_tables [u ''Adele'', u ''adele'', u ''Drake''] 2"
    by (simp only: l)
  from t have v: "parse_artists ascii_tables (Some (u ''Adele\<newline>adele\<newline>Drake'')) 2
     = [u ''Adele'', u ''Drake'']" by blast
  from s v have e: "spec_parse ascii_tables [u ''Adele'', u ''adele'', u ''Drake''] 2
     = [u ''Adele'', u ''Drake'']" by simp
  from t l s e show ?thesis by blast
qed

text \<open>
  C8. A line whose cleaned item, lowered, holds one of \<open>artists:\<close>, \<open>here are\<close>,
  \<open>list:\<close>, \<open>output\<close>, \<open>names:\<close> is skipped by the loop, so no item of a result holds
  one; and \<open>Here are the artists:\<close>, \<open>Adele\<close>, \<open>Drake\<close> give \<open>[Adele, Drake]\<close> for
  a target of 2.
\<close>

theorem parse_discards_preamble:
  "(has_preamble T (clean_item line) \<longrightarrow>
      clean_lines T tc cleaned seen (line # lines) = clean_lines T tc cleaned seen lines) \<and>
   (\<forall>item\<in>set (parse_artists T raw tc).
      \<forall>marker\<in>set [u ''artists:'', u ''here are'', u ''list:'', u ''output'', u ''names:''].
        \<not> contains marker (str_lower T item)) \<and>
   parse_artists T (Some (u ''Here are the artists:\<newline>Adele\<newline>Drake'')) 2 = [u ''Adele'', u ''Drake'']"
proof (intro conjI)
  show "has_preamble T (clean_item line) \<longrightarrow>
      clean_lines T tc cleaned seen (line # lines) = clean_lines T tc cleaned seen lines"
    by (simp add: Let_def)
  have "set (parse_artists T raw tc) \<subseteq> {item. \<not> has_preamble T item}"
    using parse_artists_subset clean_lines_no_preamble[of T tc "[]" "{}"] by fastforce
  then show "\<forall>item\<in>set (parse_artists T raw tc).
      \<forall>marker\<in>set [u ''artists:'', u ''here are'', u ''list:'', u ''output'', u ''names:''].
        \<not> contains marker (str_lower T item)"
    unfolding has_preamble_def preamble_markers_def list_ex_iff by blast
  show "parse_artists T (Some (u ''Here are the artists:\<newline>Adele\<newline>Drake'')) 2 = [u ''Adele'', u ''Drake'']"
    by (simp add: parse_eval)
qed

theorem parse_discards_preamble_witness:
  "has_preamble ascii_tables (clean_item (u ''Here are the artists:'')) \<and>
   clean_lines ascii_tables 2 [] {} [u ''Here are the artists:'', u ''Adele'']
     = clean_lines ascii_tables 2 [] {} [u ''Adele''] \<and>
   u ''Adele'' \<in> set (parse_artists ascii_tables (Some (u ''Adele\<newline>Drake'')) 2) \<and>
   u ''here are'' \<in> set [u ''artists:'', u ''here are'', u ''list:'', u ''output'', u ''names:''] \<and>
   \<not> contains (u ''here are'') (str_lower ascii_tables (u ''Adele'')) \<and>
   parse_artists ascii_tables (Some (u ''Here are the artists:\<newline>Adele\<newline>Drake'')) 2
     = [u ''Adele'', u ''Drake'']"
proof -
  have h: "has_preamble ascii_tables (clean_item (u ''Here are the artists:''))"
    by (simp add: parse_eval)
  have i: "u ''Adele'' \<in> set (parse_artists ascii_tables (Some (u ''Adele\<newline>Drake'')) 2)"
    by (simp add: short_parse)
  have m: "u ''here are'' \<in> set [u ''artists:'', u ''here are'', u ''list:'', u ''output'', u ''names:'']"
    by simp
  from parse_discards_preamble[of ascii_tables "u ''Here are the artists:''" 2 "[]" "{}"
         "[u ''Adele'']" "Some (u ''Adele\<newline>Drake'')"] h i m
  show ?thesis by blast
qed

text \<open>
  C9. A count of \<open>0\<close> or \<open>None\<close> is replaced by \<open>enforce_count\<close>, which is 10 by
  default: the call is the one with that count. The target is 0 only if \<open>enforce_count\<close>
  is 0, and never with the default configuration.
\<close>

theorem falsy_count_uses_enforce_count:
  "target_count_of cfg None = enforce_count cfg \<and>
   target_count_of cfg (Some 0) = enforce_count cfg \<and>
   get_artists T cfg backend mood language (Some 0) w =
     get_artists T cfg backend mood language (Some (enforce_count cfg)) w \<and>
   get_artists T cfg backend mood language None w =
     get_artists T cfg backend mood language (Some (enforce_count cfg)) w \<and>
   (target_count_of cfg count = 0 \<longrightarrow> enforce_count cfg = 0) \<and>
   enforce_count (default_config key) = 10 \<and>
   target_count_of (default_config key) count \<noteq> 0"
  by (auto simp: target_count_of_def get_artists_def default_config_def split: option.splits)

theorem falsy_count_uses_enforce_count_witness:
  "target_count_of ((default_config sample_key)\<lparr>enforce_count := 0\<rparr>) (Some 0) = 0 \<and>
   enforce_count ((default_config sample_key)\<lparr>enforce_count := 0\<rparr>) = 0 \<and>
   target_count_of (default_config sample_key) (Some 0) = 10 \<and>
   get_artists ascii_tables (default_config sample_key) short_backend (u ''happy'') None (Some 0) []
     = get_artists ascii_tables (default_config sample_key) short_backend (u ''happy'') None
         (Some 10) []"
proof -
  have h: "target_count_of ((default_config sample_key)\<lparr>enforce_count := 0\<rparr>) (Some 0) = 0"
    by (simp add: target_count_of_def)
  from falsy_count_uses_enforce_count[of "(default_config sample_key)\<lparr>enforce_count := 0\<rparr>"
         ascii_tables short_backend "u ''happy''" None "[]" "Some 0" sample_key]
       falsy_count_uses_enforce_count[of "default_config sample_key"
         ascii_tables short_backend "u ''happy''" None "[]" "Some 0" sample_key] h
  show ?thesis by simp
qed

text \<open>
  C10, as amended. The number of attempts is \<open>max 1 retries\<close>. For a mood that is not
  blank the call makes at least one request and at most that many. With \<open>retries \<le> 0\<close>
  it makes exactly one request and does not sleep: it is the call with \<open>retries = 1\<close>.
\<close>

theorem at_least_one_attempt:
  assumes "strip mood \<noteq> []"
    and "get_artists T cfg backend mood language count w = (res, w')"
  shows "attempts cfg = max 1 (retries cfg) \<and>
         (\<exists>v. w' = w @ v \<and> 1 \<le> length (requests_of v) \<and>
               int (length (requests_of v)) \<le> max 1 (retries cfg)) \<and>
         (retries cfg \<le> 0 \<longrightarrow>
            length (requests_of w') = length (requests_of w) + 1 \<and>
            sleeps_of w' = sleeps_of w \<and>
            get_artists T (cfg\<lparr>retries := 1\<rparr>) backend mood language count w = (res, w'))"
proof -
  let ?tc = "target_count_of cfg count"
  from assms have run: "attempt_loop T cfg backend (strip mood) (language_of language) ?tc 1 w
                          = (res, w')"
    by (simp add: get_artists_valid)
  from attempt_loop_run[OF attempts_ge_1 run] obtain v k where
    "w' = w @ v" "0 < k" "int k \<le> attempts cfg - 1 + 1"
    "requests_of v = map (make_request cfg (strip mood) (language_of language) ?tc) [1..1 + int k - 1]"
    by blast
  then have "\<exists>v. w' = w @ v \<and> 1 \<le> length (requests_of v) \<and>
               int (length (requests_of v)) \<le> max 1 (retries cfg)"
    by (intro exI[of _ v]) (simp add: attempts_def)
  moreover have "length (requests_of w') = length (requests_of w) + 1 \<and>
            sleeps_of w' = sleeps_of w \<and>
            get_artists T (cfg\<lparr>retries := 1\<rparr>) backend mood language count w = (res, w')"
    if "retries cfg \<le> 0"
  proof -
    from that have one: "attempts cfg = 1" "attempts (cfg\<lparr>retries := 1\<rparr>) = 1"
      by (simp_all add: attempts_def)
    have tc: "target_count_of (cfg\<lparr>retries := 1\<rparr>) count = ?tc"
      by (simp add: target_count_of_def split: option.splits)
    from run show ?thesis
      by (auto simp: attempt_loop_single[OF one(1)] attempt_loop_single[OF one(2)] tc
            get_artists_valid[OF assms(1)] make_request_retries send_def
            requests_of_append sleeps_of_append)
  qed
  ultimately show ?thesis by (simp add: attempts_def)
qed

theorem at_least_one_attempt_witness:
  "strip (u ''happy'') \<noteq> [] \<and> retries ((default_config sample_key)\<lparr>retries := 0\<rparr>) \<le> 0 \<and>
   length (requests_of (snd (get_artists ascii_tables ((default_config sample_key)\<lparr>retries := 0\<rparr>)
       failing_backend (u ''happy'') None None []))) = 1 \<and>
   sleeps_of (snd (get_artists ascii_tables ((default_config sample_key)\<lparr>retries := 0\<rparr>)
       failing_backend (u ''happy'') None None [])) = [] \<and>
   get_artists ascii_tables ((default_config sample_key)\<lparr>retries := 0, retries := 1\<rparr>)
       failing_backend (u ''happy'') None None []
     = get_artists ascii_tables ((default_config sample_key)\<lparr>retries := 0\<rparr>)
       failing_backend (u ''happy'') None None []"
proof -
  let ?cfg = "(default_config sample_key)\<lparr>retries := 0\<rparr>"
  let ?G = "get_artists ascii_tables ?cfg failing_backend (u ''happy'') None None []"
  have p: "?G = (fst ?G, snd ?G)" by simp
  have r: "retries ?cfg \<le> 0" by simp
  from at_least_one_attempt[OF happy_valid p] r happy_valid show ?thesis by simp
qed

text \<open>
  C10 as stated fails for a blank mood: whatever the configuration, the guard of line 33
  returns \<open>[]\<close> at once and no request is made.
\<close>

theorem no_attempt_blank_mood_counterexample:
  "strip (u '' '') = [] \<and>
   get_artists ascii_tables (default_config sample_key) short_backend (u '' '') None (Some 2) []
     = (Inr [], []) \<and>
   requests_of (snd (get_artists ascii_tables (default_config sample_key) short_backend
     (u '' '') None (Some 2) [])) = []"
  by (simp add: blank_run strip_empty)

end
